theory Spec2Isabelle
  imports Complex_Main "HOL-Library.Sublist"
begin

section \<open>Clock arithmetic\<close>

text \<open>
  \<open>time.time()\<close> returns a Python float, an IEEE 754 double. A clock reading is modelled
  by the real number it denotes, and the one operation the sources apply to two readings,
  their subtraction, by \<open>fsub\<close>: the exact difference rounded to the nearest double, ties
  to the even significand. \<open>ulp_exponent x\<close> is the exponent of the spacing of the doubles
  around \<open>x\<close> (52 below the exponent of \<open>x\<close>, and not below that of the subnormal
  numbers). Overflow is not modelled: clock readings are far below the largest double.
  Comparisons of doubles are exact.
\<close>

definition round_half_even :: "real \<Rightarrow> int" where
  "round_half_even y =
     (let f = \<lfloor>y\<rfloor>; r = y - of_int f
      in if r < 1/2 then f else if r > 1/2 then f + 1 else if even f then f else f + 1)"

definition ulp_exponent :: "real \<Rightarrow> int" where
  "ulp_exponent x = max (\<lfloor>log 2 \<bar>x\<bar>\<rfloor> - 52) (- 1074)"

definition round_double :: "real \<Rightarrow> real" where
  "round_double x =
     (if x = 0 then 0
      else of_int (round_half_even (x / 2 powr of_int (ulp_exponent x)))
             * 2 powr of_int (ulp_exponent x))"

definition fsub :: "real \<Rightarrow> real \<Rightarrow> real" where
  "fsub a b = round_double (a - b)"

text \<open>
  \<open>on_grid n t\<close>: the reading \<open>t\<close> is a non-negative multiple of \<open>1 / 2 ^ n\<close> below
  \<open>2 ^ 53 / 2 ^ n\<close>. Every double from \<open>2 ^ 30\<close> up to \<open>2 ^ 31\<close>, the range of
  \<open>time.time()\<close> from the year 2004 to 2038, is on the grid for \<open>n = 22\<close>. Two readings
  on one grid are doubles whose difference is a double, so that their subtraction is exact.
\<close>

definition on_grid :: "nat \<Rightarrow> real \<Rightarrow> bool" where
  "on_grid n t \<longleftrightarrow>
     n \<le> 1074 \<and> 0 \<le> t \<and> t * 2 ^ n < 2 ^ 53 \<and> of_int \<lfloor>t * 2 ^ n\<rfloor> = t * 2 ^ n"

section \<open>GPIO inputs (gpio\_inputs.py)\<close>

text \<open>
  The GPIO library is injected into every class as \<open>gpio\<close>; the code uses its constants
  \<open>HIGH\<close> and \<open>LOW\<close> and its function \<open>input(pin)\<close>. The constants are taken as
  parameters; a level is whatever integer \<open>input\<close> returns. Readings of
  \<open>time.time()\<close> and durations are the real numbers the doubles denote; two readings
  are subtracted with \<open>fsub\<close>.
\<close>

record gpio_module =
  HIGH :: int
  LOW :: int

datatype button_event = Pressed | Released

text \<open>
  The fields of \<open>DebouncedButton\<close>. \<open>LongPressDetector\<close> declares the same fields again
  and adds three of its own, so it is modelled as an extension of this record.
\<close>

record debounced_button =
  pin :: int
  gpio :: gpio_module
  active_high :: bool
  debounce_s :: real
  raw_last :: int
  stable :: int
  raw_changed_t :: real

text \<open>\<open>DebouncedButton.__init__\<close>: \<open>initial\<close> is the level read from the pin and \<open>t0\<close>
  the clock reading taken by the constructor.\<close>

definition DebouncedButton_init ::
  "int \<Rightarrow> gpio_module \<Rightarrow> bool \<Rightarrow> real \<Rightarrow> int \<Rightarrow> real \<Rightarrow> debounced_button" where
  "DebouncedButton_init p g ah d initial t0 =
     \<lparr>pin = p, gpio = g, active_high = ah, debounce_s = d,
      raw_last = initial, stable = initial, raw_changed_t = t0\<rparr>"

definition is_pressed_level :: "'a debounced_button_scheme \<Rightarrow> int \<Rightarrow> bool" where
  "is_pressed_level b level =
     (if active_high b then level = HIGH (gpio b) else level = LOW (gpio b))"

text \<open>
  Both \<open>poll\<close> methods begin with the same statements, given the reading \<open>now\<close> of
  \<open>time.time()\<close> and the level \<open>raw\<close> read from the pin: a raw reading that differs
  from the last one is stored with its time.
\<close>

definition track_raw :: "'a debounced_button_scheme \<Rightarrow> real \<Rightarrow> int \<Rightarrow> 'a debounced_button_scheme" where
  "track_raw b now raw =
     (if raw \<noteq> raw_last b then b\<lparr>raw_last := raw, raw_changed_t := now\<rparr> else b)"

text \<open>
  \<open>DebouncedButton.poll\<close>. The result is the returned event (\<open>None\<close> for Python's
  \<open>None\<close>) and the updated object.
\<close>

definition DebouncedButton_poll ::
  "debounced_button \<Rightarrow> real \<Rightarrow> int \<Rightarrow> button_event option \<times> debounced_button" where
  "DebouncedButton_poll b now raw =
     (let b1 = track_raw b now raw
      in if fsub now (raw_changed_t b1) \<ge> debounce_s b1 \<and> raw \<noteq> stable b1
         then (let b2 = b1\<lparr>stable := raw\<rparr>
               in (Some (if is_pressed_level b2 (stable b2) then Pressed else Released), b2))
         else (None, b1))"

text \<open>A caller polling repeatedly: the events returned, in order, and the final object.\<close>

fun poll_all ::
  "debounced_button \<Rightarrow> (real \<times> int) list \<Rightarrow> button_event option list \<times> debounced_button" where
  "poll_all b [] = ([], b)"
| "poll_all b ((now, raw) # ps) =
     (let (e, b1) = DebouncedButton_poll b now raw;
          (es, b2) = poll_all b1 ps
      in (e # es, b2))"

text \<open>
  The history of raw readings, as the specification speaks of it: the clock reading of
  the latest poll whose raw level differed from the reading before it. \<open>c\<close> is the time of
  the last change before the listed polls and \<open>r\<close> the reading before them.
\<close>

fun last_raw_change :: "real \<Rightarrow> int \<Rightarrow> (real \<times> int) list \<Rightarrow> real" where
  "last_raw_change c r [] = c"
| "last_raw_change c r ((t, v) # ps) = last_raw_change (if v \<noteq> r then t else c) v ps"

fun last_raw :: "int \<Rightarrow> (real \<times> int) list \<Rightarrow> int" where
  "last_raw r [] = r"
| "last_raw r ((t, v) # ps) = last_raw v ps"

definition event_of :: "'a debounced_button_scheme \<Rightarrow> int \<Rightarrow> button_event" where
  "event_of b level = (if is_pressed_level b level then Pressed else Released)"

text \<open>
  \<open>LongPressDetector\<close>: the fields of a debounced input and the hold-tracking state.
  \<open>press_start_t\<close> is \<open>None\<close> for Python's \<open>None\<close>.
\<close>

record long_press_detector = debounced_button +
  long_press_s :: real
  press_start_t :: "real option"
  fired :: bool

definition LongPressDetector_init ::
  "int \<Rightarrow> gpio_module \<Rightarrow> real \<Rightarrow> bool \<Rightarrow> real \<Rightarrow> int \<Rightarrow> real \<Rightarrow> long_press_detector" where
  "LongPressDetector_init p g lp ah d initial t0 =
     \<lparr>pin = p, gpio = g, active_high = ah, debounce_s = d,
      raw_last = initial, stable = initial, raw_changed_t = t0,
      long_press_s = lp, press_start_t = None, fired = False\<rparr>"

text \<open>
  \<open>LongPressDetector.poll(enabled)\<close>, in the order of its statements: the raw edge
  (\<open>track_raw\<close>, the same statements as in \<open>DebouncedButton.poll\<close>), the debounced level
  with its two edge branches (\<open>update_stable\<close>), the \<open>enabled\<close> test, and the hold test.
\<close>

definition update_stable :: "long_press_detector \<Rightarrow> real \<Rightarrow> int \<Rightarrow> long_press_detector" where
  "update_stable d now raw =
     (if fsub now (raw_changed_t d) \<ge> debounce_s d \<and> raw \<noteq> stable d
      then (let prev = stable d;
                e1 = d\<lparr>stable := raw\<rparr>;
                e2 = (if is_pressed_level e1 (stable e1) \<and> \<not> is_pressed_level e1 prev
                      then e1\<lparr>press_start_t := Some now, fired := False\<rparr> else e1);
                e3 = (if \<not> is_pressed_level e2 (stable e2) \<and> is_pressed_level e2 prev
                      then e2\<lparr>press_start_t := None, fired := False\<rparr> else e2)
            in e3)
      else d)"

definition LongPressDetector_poll ::
  "long_press_detector \<Rightarrow> real \<Rightarrow> int \<Rightarrow> bool \<Rightarrow> bool \<times> long_press_detector" where
  "LongPressDetector_poll d now raw enabled =
     (let d2 = update_stable (track_raw d now raw) now raw
      in if \<not> enabled then (False, d2\<lparr>press_start_t := None, fired := False\<rparr>)
         else (case press_start_t d2 of
                 None \<Rightarrow> (False, d2)
               | Some since \<Rightarrow>
                   if \<not> fired d2 \<and> is_pressed_level d2 (stable d2)
                      \<and> fsub now since \<ge> long_press_s d2
                   then (True, d2\<lparr>fired := True\<rparr>)
                   else (False, d2)))"

text \<open>
  The debounced edge a poll has seen, read off the accepted level before and after it:
  \<open>Pressed\<close> when the level went from not pressed to pressed, \<open>Released\<close> for the reverse.
\<close>

definition held :: "'a debounced_button_scheme \<Rightarrow> bool" where
  "held d = is_pressed_level d (stable d)"

definition debounced_edge ::
  "long_press_detector \<Rightarrow> long_press_detector \<Rightarrow> button_event option" where
  "debounced_edge d d' =
     (if \<not> held d \<and> held d' then Some Pressed
      else if held d \<and> \<not> held d' then Some Released else None)"

text \<open>
  A caller polling repeatedly with \<open>(now, raw, enabled)\<close>: for every poll the value
  returned and the debounced edge seen.
\<close>

fun lp_poll_all ::
  "long_press_detector \<Rightarrow> (real \<times> int \<times> bool) list \<Rightarrow> (bool \<times> button_event option) list" where
  "lp_poll_all d [] = []"
| "lp_poll_all d ((now, raw, enabled) # ps) =
     (let (r, d') = LongPressDetector_poll d now raw enabled
      in (r, debounced_edge d d') # lp_poll_all d' ps)"

section \<open>The environment and the log of effects\<close>

text \<open>
  A Python \<open>str\<close> is a sequence of Unicode code points; slicing and \<open>len\<close> count code
  points, so a string is modelled as a list of code points and a literal is mapped from
  its ASCII characters.
\<close>

type_synonym ustr = "nat list"

definition ascii :: "string \<Rightarrow> ustr" where
  "ascii s = map of_char s"

text \<open>
  Everything the program reads from outside comes from a script of samples. Every call
  of \<open>time.time()\<close>, \<open>gpio.input(pin)\<close>, \<open>Popen.wait(timeout)\<close> and of the
  transcription, translation and synthesis collaborators consumes the next sample and
  reads its answer there: \<open>clock\<close> is the wall clock, \<open>level pin\<close> the level of a pin,
  \<open>proc_exits\<close> whether the capture process has exited when the graceful wait ends, and
  \<open>services\<close> what the collaborators return. A script is finite: where it runs out the
  program is still blocked or polling, which is where a \<open>KeyboardInterrupt\<close> reaches
  it; that outcome is \<open>Interrupted\<close>. \<open>time.sleep\<close> and \<open>print\<close> have no part in
  the model, and library calls other than the modelled ones are taken to succeed.
\<close>

record collaborators =
  transcribe_fn :: "ustr \<Rightarrow> ustr"
  translate_fn :: "ustr \<Rightarrow> ustr \<Rightarrow> ustr \<Rightarrow> ustr"
  tts_synthesize :: "ustr \<Rightarrow> ustr \<Rightarrow> ustr option"

record sample =
  clock :: real
  level :: "int \<Rightarrow> int"
  proc_exits :: bool
  services :: collaborators

datatype signal = SIGINT

text \<open>
  The effects on the world, in the order they happen. \<open>LcdWrite\<close> is a call of
  \<open>LCDDisplay.write(line1, line2)\<close> (which shows each line cut to the display width when
  the device is present); \<open>LcdScroll\<close> is the window \<open>tick_scroll\<close> writes to the second
  line; \<open>Popen_arecord\<close> is the launch of \<open>arecord\<close> with the device, format, rate and
  output path; \<open>Wait\<close> carries the timeout (\<open>None\<close> for an unbounded wait).
\<close>

datatype event =
    LcdWrite ustr ustr
  | LcdScroll ustr
  | LcdClear
  | Makedirs ustr
  | Popen_arecord ustr ustr int ustr
  | SendSignal signal
  | Wait "real option"
  | Kill
  | Transcribe ustr
  | Translate ustr ustr ustr
  | Synthesize ustr ustr
  | PlayWav ustr
  | GpioCleanup

datatype error = ZeroDivisionError | TypeError | RuntimeError ustr

text \<open>
  The outcome of a call: it returned a value (with the rest of the script), it raised,
  or the script ran out inside it.
\<close>

datatype 'a result = Returned 'a "sample list" | Raised error | Interrupted

definition and_then ::
  "'a result \<times> 's \<Rightarrow> ('a \<Rightarrow> sample list \<Rightarrow> 's \<Rightarrow> 'b result \<times> 's) \<Rightarrow> 'b result \<times> 's" where
  "and_then m f =
     (case m of
        (Returned x rest, s) \<Rightarrow> f x rest s
      | (Raised e, s) \<Rightarrow> (Raised e, s)
      | (Interrupted, s) \<Rightarrow> (Interrupted, s))"

section \<open>The display (lcd\_display.py)\<close>

text \<open>
  \<open>LCDDisplay\<close>: \<open>device\<close> says whether \<open>self.lcd\<close> is present (not \<open>None\<close>). The one
  display object is shared by the controller, the selector and the pipeline, so it stands
  once in the state \<open>io\<close>, next to the log of effects.
\<close>

record lcd_display =
  cols :: nat
  rows :: nat
  scroll_interval_s :: real
  device :: bool
  scroll_text :: ustr
  scroll_offset :: nat
  scroll_last_time :: real

record io =
  lcd :: lcd_display
  events :: "event list"

definition emit :: "event \<Rightarrow> 'a io_scheme \<Rightarrow> 'a io_scheme" where
  "emit e u = u\<lparr>events := events u @ [e]\<rparr>"

definition LCDDisplay_write :: "ustr \<Rightarrow> ustr \<Rightarrow> 'a io_scheme \<Rightarrow> 'a io_scheme" where
  "LCDDisplay_write line1 line2 u = emit (LcdWrite line1 line2) u"

text \<open>\<open>set_scroll_text\<close>: text and offset are stored before the clock is read.\<close>

definition LCDDisplay_set_scroll_text ::
  "ustr \<Rightarrow> 'a io_scheme \<Rightarrow> sample list \<Rightarrow> unit result \<times> 'a io_scheme" where
  "LCDDisplay_set_scroll_text txt u script =
     (let u1 = u\<lparr>lcd := (lcd u)\<lparr>scroll_text := txt, scroll_offset := 0\<rparr>\<rparr>
      in case script of
           [] \<Rightarrow> (Interrupted, u1)
         | s # rest \<Rightarrow> (Returned () rest, u1\<lparr>lcd := (lcd u1)\<lparr>scroll_last_time := clock s\<rparr>\<rparr>))"

definition LCDDisplay_clear_scroll ::
  "'a io_scheme \<Rightarrow> sample list \<Rightarrow> unit result \<times> 'a io_scheme" where
  "LCDDisplay_clear_scroll u script = LCDDisplay_set_scroll_text [] u script"

definition ljust :: "nat \<Rightarrow> ustr \<Rightarrow> ustr" where
  "ljust n w = w @ replicate (n - length w) 32"

definition LCDDisplay_tick_scroll ::
  "bool \<Rightarrow> 'a io_scheme \<Rightarrow> sample list \<Rightarrow> unit result \<times> 'a io_scheme" where
  "LCDDisplay_tick_scroll is_rec u script =
     (if \<not> device (lcd u) then (Returned () script, u)
      else if scroll_text (lcd u) = [] then (Returned () script, u)
      else if is_rec then (Returned () script, u)
      else (case script of
              [] \<Rightarrow> (Interrupted, u)
            | s # rest \<Rightarrow>
                if fsub (clock s) (scroll_last_time (lcd u)) < scroll_interval_s (lcd u)
                then (Returned () rest, u)
                else (let padded = scroll_text (lcd u) @ ascii ''   '';
                          off = (if scroll_offset (lcd u) \<ge> length padded then 0
                                 else scroll_offset (lcd u));
                          window = ljust (cols (lcd u)) (take (cols (lcd u)) (drop off padded));
                          l1 = (lcd u)\<lparr>scroll_last_time := clock s, scroll_offset := off + 1\<rparr>
                      in (Returned () rest, emit (LcdScroll window) (u\<lparr>lcd := l1\<rparr>)))))"

definition LCDDisplay_shutdown :: "ustr \<Rightarrow> ustr \<Rightarrow> 'a io_scheme \<Rightarrow> 'a io_scheme" where
  "LCDDisplay_shutdown line1 line2 u =
     (if \<not> device (lcd u) then u else emit LcdClear (LCDDisplay_write line1 line2 u))"

section \<open>The recorder (audio\_recorder.py)\<close>

datatype process = Arecord ustr

record audio_recorder =
  mic_device :: ustr
  rate :: int
  fmt :: ustr
  out_dir :: ustr
  filename :: ustr
  proc :: "process option"
  started_t :: "real option"

definition is_recording :: "audio_recorder \<Rightarrow> bool" where
  "is_recording r = (proc r \<noteq> None)"

text \<open>\<open>os.path.join\<close> of two components; 47 is the slash.\<close>

definition path_join :: "ustr \<Rightarrow> ustr \<Rightarrow> ustr" where
  "path_join a b =
     (if (case b of [] \<Rightarrow> False | c # _ \<Rightarrow> c = 47) then b
      else if a = [] \<or> last a = 47 then a @ b
      else a @ [47] @ b)"

definition wav_path :: "audio_recorder \<Rightarrow> ustr" where
  "wav_path r = path_join (out_dir r) (filename r)"

definition AudioRecorder_start ::
  "audio_recorder \<Rightarrow> sample list \<Rightarrow> unit result \<times> audio_recorder \<times> event list" where
  "AudioRecorder_start r script =
     (if proc r \<noteq> None then (Returned () script, r, [])
      else (case script of
              [] \<Rightarrow> (Interrupted, r, [Makedirs (out_dir r)])
            | s # rest \<Rightarrow>
                (Returned () rest,
                 r\<lparr>started_t := Some (clock s), proc := Some (Arecord (wav_path r))\<rparr>,
                 [Makedirs (out_dir r),
                  Popen_arecord (mic_device r) (fmt r) (rate r) (wav_path r)])))"

text \<open>
  \<open>AudioRecorder.stop(timeout_s)\<close>: the result is the duration, the recorder afterwards
  and the effects on the process. The sample read by the bounded wait says whether the
  process exited in time; the start time is tested for truth as Python does (\<open>None\<close> and
  \<open>0.0\<close> are false), and the clock is read only when it is true.
\<close>

definition AudioRecorder_stop ::
  "audio_recorder \<Rightarrow> real \<Rightarrow> sample list \<Rightarrow> real result \<times> audio_recorder \<times> event list" where
  "AudioRecorder_stop r timeout_s script =
     (case proc r of
        None \<Rightarrow> (Returned 0 script, r, [])
      | Some p \<Rightarrow>
          (case script of
             [] \<Rightarrow> (Interrupted, r, [SendSignal SIGINT])
           | s1 # rest1 \<Rightarrow>
               (let evs = [SendSignal SIGINT, Wait (Some timeout_s)]
                          @ (if proc_exits s1 then [] else [Kill, Wait None]);
                    idle = r\<lparr>proc := None, started_t := None\<rparr>
                in case started_t r of
                     None \<Rightarrow> (Returned 0 rest1, idle, evs)
                   | Some t \<Rightarrow>
                       if t = 0 then (Returned 0 rest1, idle, evs)
                       else (case rest1 of
                               [] \<Rightarrow> (Interrupted, r, evs)
                             | s2 # rest2 \<Rightarrow> (Returned (fsub (clock s2) t) rest2, idle, evs)))))"

section \<open>The pipeline (translation\_pipeline.py)\<close>

record translation_pipeline =
  lcd_cols :: nat

text \<open>
  \<open>TranslationPipeline.process(wav_path, src_lang, tgt_lang)\<close>. The result is the pair
  returned, \<open>None\<close> for Python's \<open>None\<close>. 8594 is the code point of the arrow in the
  header. \<open>if wav:\<close> is Python's truth test: \<open>None\<close> and the empty string are false.
\<close>

definition TranslationPipeline_process ::
  "translation_pipeline \<Rightarrow> ustr \<Rightarrow> ustr \<Rightarrow> ustr \<Rightarrow> 'a io_scheme \<Rightarrow> sample list
     \<Rightarrow> (ustr option \<times> ustr option) result \<times> 'a io_scheme" where
  "TranslationPipeline_process pl wav src_lang tgt_lang u script =
     (let u1 = LCDDisplay_write (ascii ''Transcribing...'') [] u
      in case script of
           [] \<Rightarrow> (Interrupted, u1)
         | s1 # rest1 \<Rightarrow>
             (let txt = transcribe_fn (services s1) wav;
                  u2 = emit (Transcribe wav) u1
              in if txt = []
                 then and_then (LCDDisplay_clear_scroll u2 rest1)
                        (\<lambda>_ rest2 u3.
                           (Returned (None, None) rest2,
                            LCDDisplay_write (ascii ''No speech'') (ascii ''Try again'') u3))
                 else (let u3 = LCDDisplay_write (ascii ''Translating...'') [] u2
                       in case rest1 of
                            [] \<Rightarrow> (Interrupted, u3)
                          | s2 # rest2 \<Rightarrow>
                              (let out = translate_fn (services s2) txt src_lang tgt_lang;
                                   u4 = emit (Translate txt src_lang tgt_lang) u3;
                                   header = take 3 src_lang @ [8594] @ take 3 tgt_lang
                               in and_then (LCDDisplay_set_scroll_text out u4 rest2)
                                    (\<lambda>_ rest3 u5.
                                       (let u6 = LCDDisplay_write header (take (lcd_cols pl) out) u5
                                        in case rest3 of
                                             [] \<Rightarrow> (Interrupted, u6)
                                           | s3 # rest4 \<Rightarrow>
                                               (let wav_out = tts_synthesize (services s3) out tgt_lang;
                                                    u7 = emit (Synthesize out tgt_lang) u6
                                                in case wav_out of
                                                     None \<Rightarrow> (Returned (Some txt, Some out) rest4, u7)
                                                   | Some p \<Rightarrow>
                                                       if p = []
                                                       then (Returned (Some txt, Some out) rest4, u7)
                                                       else (Returned (Some txt, Some out) rest4,
                                                             emit (PlayWav p) u7))))))))"

section \<open>The language selector (language\_selector.py)\<close>

text \<open>
  \<open>LanguageSelector\<close>. The fields \<open>debounce_s\<close> and \<open>poll_s\<close> are used only as sleep
  times and are left out; \<open>gpio\<close> is named \<open>sel_gpio\<close> here.
\<close>

record language_selector =
  sel_gpio :: gpio_module
  clk_pin :: int
  dt_pin :: int
  sw_pin :: int
  sw_active_low :: bool

definition sw_pressed :: "language_selector \<Rightarrow> int \<Rightarrow> bool" where
  "sw_pressed sel lv =
     (if sw_active_low sel then lv = LOW (sel_gpio sel) else lv = HIGH (sel_gpio sel))"

text \<open>
  The loop that waits, for at most half a second, until the switch is released before
  selection starts: each turn reads the switch and, when it is pressed, the clock.
  The result is the script left when the loop ends, \<open>None\<close> when the script runs out.
\<close>

fun settle :: "language_selector \<Rightarrow> real \<Rightarrow> sample list \<Rightarrow> sample list option" where
  "settle sel start [] = None"
| "settle sel start [s] = (if sw_pressed sel (level s (sw_pin sel)) then None else Some [])"
| "settle sel start (s # s2 # rest) =
     (if sw_pressed sel (level s (sw_pin sel))
      then (if fsub (clock s2) start < 1/2 then settle sel start rest else Some rest)
      else Some (s2 # rest))"

text \<open>The loop that waits for the release after a valid press.\<close>

fun wait_release :: "language_selector \<Rightarrow> sample list \<Rightarrow> sample list option" where
  "wait_release sel [] = None"
| "wait_release sel (s # rest) =
     (if sw_pressed sel (level s (sw_pin sel)) then wait_release sel rest else Some rest)"

text \<open>
  The rotation block of the loop (\<open>if clk != last_clk: ...\<close>), given the CLK and DT
  levels just read: the new index, the option chosen, the last CLK level and the display.
  Python's \<open>%\<close> on integers is \<open>mod\<close> on \<open>int\<close> (the result has the sign of the
  divisor), and \<open>options[index]\<close> is read at the index the modulus has produced.
\<close>

definition rotation_block ::
  "ustr \<Rightarrow> (ustr \<times> ustr) list \<Rightarrow> int \<Rightarrow> ustr \<times> ustr \<Rightarrow> int \<Rightarrow> 'a io_scheme \<Rightarrow> int \<Rightarrow> int
     \<Rightarrow> int \<times> (ustr \<times> ustr) \<times> int \<times> 'a io_scheme" where
  "rotation_block prompt options index chosen last_clk u clk dt =
     (if clk \<noteq> last_clk
      then (let index1 = (if dt \<noteq> clk then (index + 1) mod int (length options)
                          else (index - 1) mod int (length options));
                chosen1 = options ! nat index1
            in (index1, chosen1, clk, LCDDisplay_write prompt (fst chosen1) u))
      else (index, chosen, last_clk, u))"

text \<open>
  The \<open>while True\<close> loop of \<open>select_one\<close>; \<open>chosen\<close> is the pair \<open>(name, code)\<close>. One turn
  reads CLK, DT and SW, and a fourth sample when SW has changed.
\<close>

fun select_loop ::
  "language_selector \<Rightarrow> ustr \<Rightarrow> (ustr \<times> ustr) list \<Rightarrow> int \<Rightarrow> ustr \<times> ustr \<Rightarrow> int \<Rightarrow> int
     \<Rightarrow> 'a io_scheme \<Rightarrow> sample list \<Rightarrow> (ustr \<times> ustr) result \<times> 'a io_scheme" where
  "select_loop sel prompt options index chosen last_clk last_sw u (s1 # s2 # s3 # rest) =
     (case rotation_block prompt options index chosen last_clk u
             (level s1 (clk_pin sel)) (level s2 (dt_pin sel)) of
        (index1, chosen1, last_clk1, u1) \<Rightarrow>
          if level s3 (sw_pin sel) \<noteq> last_sw
          then (case rest of
                  [] \<Rightarrow> (Interrupted, u1)
                | s4 # rest4 \<Rightarrow>
                    if level s4 (sw_pin sel) \<noteq> last_sw
                    then (if sw_pressed sel (level s4 (sw_pin sel))
                          then (case wait_release sel rest4 of
                                  None \<Rightarrow> (Interrupted, u1)
                                | Some rest5 \<Rightarrow> (Returned chosen1 rest5, u1))
                          else select_loop sel prompt options index1 chosen1 last_clk1
                                 (level s4 (sw_pin sel)) u1 rest4)
                    else select_loop sel prompt options index1 chosen1 last_clk1 last_sw
                           u1 rest4)
          else select_loop sel prompt options index1 chosen1 last_clk1 last_sw u1 rest)"
| "select_loop sel prompt options index chosen last_clk last_sw u script = (Interrupted, u)"

text \<open>
  \<open>select_one(prompt_line1, options, initial_index)\<close>. An empty option list makes
  \<open>initial_index % len(options)\<close> raise \<open>ZeroDivisionError\<close>, after the scroll state has
  been cleared.
\<close>

definition select_one ::
  "language_selector \<Rightarrow> ustr \<Rightarrow> (ustr \<times> ustr) list \<Rightarrow> int \<Rightarrow> 'a io_scheme \<Rightarrow> sample list
     \<Rightarrow> (ustr \<times> ustr) result \<times> 'a io_scheme" where
  "select_one sel prompt options initial_index u script =
     and_then (LCDDisplay_clear_scroll u script)
       (\<lambda>_ rest0 u0.
          if options = [] then (Raised ZeroDivisionError, u0)
          else (let index = initial_index mod int (length options);
                    chosen = options ! nat index;
                    u1 = LCDDisplay_write prompt (fst chosen) u0
                in case rest0 of
                     s_clk # s_t # rest2 \<Rightarrow>
                       (case settle sel (clock s_t) rest2 of
                          None \<Rightarrow> (Interrupted, u1)
                        | Some rest3 \<Rightarrow>
                            (case rest3 of
                               [] \<Rightarrow> (Interrupted, u1)
                             | s_sw # rest4 \<Rightarrow>
                                 select_loop sel prompt options index chosen
                                   (level s_clk (clk_pin sel)) (level s_sw (sw_pin sel))
                                   u1 rest4))
                   | _ \<Rightarrow> (Interrupted, u1)))"

text \<open>\<open>select_pair(choices, initial_index)\<close>: the result is
  \<open>(lang_a_to_b, lang_b_to_a, name_1, name_2)\<close>.\<close>

definition select_pair ::
  "language_selector \<Rightarrow> (ustr \<times> ustr) list \<Rightarrow> int \<Rightarrow> 'a io_scheme \<Rightarrow> sample list
     \<Rightarrow> ((ustr \<times> ustr) \<times> (ustr \<times> ustr) \<times> ustr \<times> ustr) result \<times> 'a io_scheme" where
  "select_pair sel choices initial_index u script =
     and_then (select_one sel (ascii ''Select Lang 1:'') choices initial_index u script)
       (\<lambda>(name_1, code_1) rest1 u1.
          and_then (select_one sel (ascii ''Select Lang 2:'') choices initial_index u1 rest1)
            (\<lambda>(name_2, code_2) rest2 u2.
               (Returned ((code_1, code_2), (code_2, code_1), name_1, name_2) rest2, u2)))"

section \<open>The controller (app\_controller.py)\<close>

text \<open>
  \<open>AppController\<close> with the objects it is built from. The display is the \<open>lcd\<close> of the
  \<open>io\<close> part, the same object the selector and the pipeline write to. Fields used only
  in \<open>print\<close> and \<open>sleep\<close> are left out.
\<close>

record app_controller = io +
  recorder :: audio_recorder
  pipeline :: translation_pipeline
  btn_a :: debounced_button
  btn_b :: debounced_button
  lang_longpress :: long_press_detector
  selector :: language_selector
  lang_choices :: "(ustr \<times> ustr) list"
  lang_a_to_b :: "(ustr \<times> ustr) option"
  lang_b_to_a :: "(ustr \<times> ustr) option"
  name_1 :: "ustr option"
  name_2 :: "ustr option"

definition select_languages_startup ::
  "app_controller \<Rightarrow> sample list \<Rightarrow> unit result \<times> app_controller" where
  "select_languages_startup c script =
     and_then (select_pair (selector c) (lang_choices c) 0 c script)
       (\<lambda>(ab, ba, n1, n2) rest c1.
          (Returned () rest,
           c1\<lparr>lang_a_to_b := Some ab, lang_b_to_a := Some ba,
              name_1 := Some n1, name_2 := Some n2\<rparr>))"

definition reselect_languages ::
  "app_controller \<Rightarrow> sample list \<Rightarrow> unit result \<times> app_controller" where
  "reselect_languages c script =
     and_then (select_pair (selector c) (lang_choices c) 0
             (LCDDisplay_write (ascii ''Change langs'') (ascii ''Rotate + press'') c) script)
       (\<lambda>(ab, ba, n1, n2) rest c1.
          (Returned () rest,
           LCDDisplay_write (ascii ''Ready'') (ascii ''Hold button'')
             (c1\<lparr>lang_a_to_b := Some ab, lang_b_to_a := Some ba,
                 name_1 := Some n1, name_2 := Some n2\<rparr>)))"

definition start_record :: "app_controller \<Rightarrow> sample list \<Rightarrow> unit result \<times> app_controller" where
  "start_record c script =
     (if is_recording (recorder c) then (Returned () script, c)
      else (case AudioRecorder_start (recorder c) script of
              (res, r, evs) \<Rightarrow>
                and_then (res, c\<lparr>recorder := r, events := events c @ evs\<rparr>)
                  (\<lambda>_ rest c1.
                     and_then (LCDDisplay_clear_scroll c1 rest)
                       (\<lambda>_ rest2 c2.
                          (Returned () rest2, LCDDisplay_write (ascii ''Recording...'') [] c2)))))"

definition stop_record ::
  "app_controller \<Rightarrow> ustr \<Rightarrow> ustr \<Rightarrow> sample list \<Rightarrow> unit result \<times> app_controller" where
  "stop_record c src_lang tgt_lang script =
     (if \<not> is_recording (recorder c) then (Returned () script, c)
      else (case AudioRecorder_stop (recorder c) 3 script of
              (res, r, evs) \<Rightarrow>
                and_then (res, c\<lparr>recorder := r, events := events c @ evs\<rparr>)
                  (\<lambda>_ rest c1.
                     and_then (TranslationPipeline_process (pipeline c1) (wav_path (recorder c1))
                             src_lang tgt_lang c1 rest)
                       (\<lambda>_ rest2 c2. (Returned () rest2, c2)))))"

definition show_ready :: "app_controller \<Rightarrow> app_controller" where
  "show_ready c = LCDDisplay_write (ascii ''Ready'') (ascii ''Hold button'') c"

text \<open>
  The first two statements of both \<open>poll\<close> methods: the clock, then the pin.
\<close>

definition read_poll :: "int \<Rightarrow> sample list \<Rightarrow> (real \<times> int \<times> sample list) option" where
  "read_poll p script =
     (case script of s1 # s2 # rest \<Rightarrow> Some (clock s1, level s2 p, rest) | _ \<Rightarrow> None)"

text \<open>
  \<open>stop_record(*pair)\<close>: unpacking \<open>None\<close> raises \<open>TypeError\<close>.
\<close>

definition stop_record_with ::
  "app_controller \<Rightarrow> (ustr \<times> ustr) option \<Rightarrow> sample list \<Rightarrow> unit result \<times> app_controller" where
  "stop_record_with c pair script =
     (case pair of
        None \<Rightarrow> (Raised TypeError, c)
      | Some (src_lang, tgt_lang) \<Rightarrow> stop_record c src_lang tgt_lang script)"

text \<open>The body of the main loop, block by block.\<close>

definition button_a_phase :: "app_controller \<Rightarrow> sample list \<Rightarrow> unit result \<times> app_controller" where
  "button_a_phase c script =
     (case read_poll (pin (btn_a c)) script of
        None \<Rightarrow> (Interrupted, c)
      | Some (now, raw, rest) \<Rightarrow>
          (case DebouncedButton_poll (btn_a c) now raw of
             (ev_a, b) \<Rightarrow>
               (let c1 = c\<lparr>btn_a := b\<rparr>
                in if ev_a = Some Pressed then start_record c1 rest
                   else if ev_a = Some Released then stop_record_with c1 (lang_a_to_b c1) rest
                   else (Returned () rest, c1))))"

definition button_b_phase :: "app_controller \<Rightarrow> sample list \<Rightarrow> unit result \<times> app_controller" where
  "button_b_phase c script =
     (case read_poll (pin (btn_b c)) script of
        None \<Rightarrow> (Interrupted, c)
      | Some (now, raw, rest) \<Rightarrow>
          (case DebouncedButton_poll (btn_b c) now raw of
             (ev_b, b) \<Rightarrow>
               (let c1 = c\<lparr>btn_b := b\<rparr>
                in if ev_b = Some Pressed then start_record c1 rest
                   else if ev_b = Some Released then stop_record_with c1 (lang_b_to_a c1) rest
                   else (Returned () rest, c1))))"

definition longpress_phase :: "app_controller \<Rightarrow> sample list \<Rightarrow> unit result \<times> app_controller" where
  "longpress_phase c script =
     (case read_poll (pin (lang_longpress c)) script of
        None \<Rightarrow> (Interrupted, c)
      | Some (now, raw, rest) \<Rightarrow>
          (case LongPressDetector_poll (lang_longpress c) now raw
                  (\<not> is_recording (recorder c)) of
             (long_pressed, d) \<Rightarrow>
               (let c1 = c\<lparr>lang_longpress := d\<rparr>
                in if long_pressed then reselect_languages c1 rest
                   else (Returned () rest, c1))))"

definition iteration :: "app_controller \<Rightarrow> sample list \<Rightarrow> unit result \<times> app_controller" where
  "iteration c script =
     and_then (button_a_phase c script)
       (\<lambda>_ rest1 c1.
          and_then (button_b_phase c1 rest1)
            (\<lambda>_ rest2 c2.
               and_then (longpress_phase c2 rest2)
                 (\<lambda>_ rest3 c3. LCDDisplay_tick_scroll (is_recording (recorder c3)) c3 rest3)))"

text \<open>
  Python's list indexing \<open>xs[i]\<close>, for the statements of the specification that speak of
  \<open>options[initial_index]\<close>: a negative index counts from the end, and an index outside
  the list raises (\<open>None\<close> here).
\<close>

definition py_getitem :: "'a list \<Rightarrow> int \<Rightarrow> 'a option" where
  "py_getitem xs i =
     (let n = int (length xs); j = (if i < 0 then i + n else i)
      in if 0 \<le> j \<and> j < n then Some (xs ! nat j) else None)"

text \<open>
  The constructor of \<open>AppController\<close>: the objects it is given, an empty log, and the
  four fields of the runtime state set to \<open>None\<close>.
\<close>

definition AppController_init ::
  "lcd_display \<Rightarrow> audio_recorder \<Rightarrow> translation_pipeline \<Rightarrow> debounced_button
     \<Rightarrow> debounced_button \<Rightarrow> long_press_detector \<Rightarrow> language_selector
     \<Rightarrow> (ustr \<times> ustr) list \<Rightarrow> app_controller" where
  "AppController_init l r p a b lp sel choices =
     \<lparr>lcd = l, events = [], recorder = r, pipeline = p, btn_a = a, btn_b = b,
      lang_longpress = lp, selector = sel, lang_choices = choices,
      lang_a_to_b = None, lang_b_to_a = None, name_1 = None, name_2 = None\<rparr>"

section \<open>Termination of the main loop\<close>

text \<open>
  No call lengthens the script, and the calls that read from it shorten it; this is what
  the termination of the main loop rests on.
\<close>

lemma and_then_ReturnedE:
  assumes "and_then m f = (Returned y rest', s')"
  obtains x rest s where "m = (Returned x rest, s)" "f x rest s = (Returned y rest', s')"
  using assms by (auto simp: and_then_def split: prod.splits result.splits)

lemma set_scroll_text_consumes:
  "LCDDisplay_set_scroll_text txt u script = (Returned x rest, u') \<Longrightarrow> length rest < length script"
  by (auto simp: LCDDisplay_set_scroll_text_def Let_def split: list.splits)

lemma clear_scroll_consumes:
  "LCDDisplay_clear_scroll u script = (Returned x rest, u') \<Longrightarrow> length rest < length script"
  unfolding LCDDisplay_clear_scroll_def by (rule set_scroll_text_consumes)

lemma tick_scroll_consumes:
  "LCDDisplay_tick_scroll r u script = (Returned x rest, u') \<Longrightarrow> length rest \<le> length script"
  by (auto simp: LCDDisplay_tick_scroll_def Let_def split: list.splits if_splits)

lemma start_consumes:
  "AudioRecorder_start r script = (Returned x rest, r', evs) \<Longrightarrow> length rest \<le> length script"
  by (auto simp: AudioRecorder_start_def split: list.splits if_splits)

lemma stop_consumes:
  "AudioRecorder_stop r t script = (Returned x rest, r', evs) \<Longrightarrow> length rest \<le> length script"
  by (auto simp: AudioRecorder_stop_def Let_def split: list.splits if_splits option.splits)

lemma process_consumes:
  "TranslationPipeline_process pl wav src tgt u script = (Returned x rest, u') \<Longrightarrow>
     length rest \<le> length script"
  by (auto simp: TranslationPipeline_process_def Let_def and_then_def
      dest!: set_scroll_text_consumes clear_scroll_consumes
      split: list.splits if_splits option.splits prod.splits result.splits)

lemma settle_consumes: "settle sel start script = Some rest \<Longrightarrow> length rest \<le> length script"
  by (induction sel start script rule: settle.induct) (auto split: if_splits)

lemma wait_release_consumes: "wait_release sel script = Some rest \<Longrightarrow> length rest \<le> length script"
  by (induction sel script rule: wait_release.induct) (auto split: if_splits)

lemma three_samples:
  obtains "length scr < 3" | s1 s2 s3 rest where "scr = s1 # s2 # s3 # rest"
  by (cases scr; cases "tl scr"; cases "tl (tl scr)") auto

lemma select_loop_short:
  "length scr < 3 \<Longrightarrow> select_loop sel prompt options index chosen last_clk last_sw u scr = (Interrupted, u)"
  by (cases scr; cases "tl scr"; cases "tl (tl scr)") auto

lemma wait_release_suffix: "wait_release sel script = Some rest \<Longrightarrow> suffix rest script"
  by (induction sel script rule: wait_release.induct) (auto split: if_splits intro: suffix_ConsI)

text \<open>
  An invariant rule for the selection loop. \<open>loop_post I script res\<close> says of an outcome
  \<open>res\<close> that the loop did not raise, that the invariant \<open>I\<close> holds of the option and
  display it ended with, and that a returned script is what was left of \<open>script\<close>.
\<close>

definition loop_post ::
  "(int \<Rightarrow> ustr \<times> ustr \<Rightarrow> int \<Rightarrow> 'a io_scheme \<Rightarrow> bool) \<Rightarrow> sample list
     \<Rightarrow> (ustr \<times> ustr) result \<times> 'a io_scheme \<Rightarrow> bool" where
  "loop_post I script res =
     (case res of
        (Returned c rest, u') \<Rightarrow> (\<exists>i l. I i c l u') \<and> suffix rest script
      | (Raised e, u') \<Rightarrow> False
      | (Interrupted, u') \<Rightarrow> (\<exists>i c l. I i c l u'))"

lemma loop_post_Returned:
  "I i c l u' \<Longrightarrow> suffix rest script \<Longrightarrow> loop_post I script (Returned c rest, u')"
  unfolding loop_post_def by (simp only: prod.case result.case) blast

lemma loop_post_Interrupted: "I i c l u' \<Longrightarrow> loop_post I script (Interrupted, u')"
  unfolding loop_post_def by (simp only: prod.case result.case) blast

lemma loop_post_mono: "loop_post I r res \<Longrightarrow> suffix r script \<Longrightarrow> loop_post I script res"
  unfolding loop_post_def
  by (cases res; cases "fst res") (auto intro: suffix_order.trans)

lemma select_loop_rule:
  assumes inv: "I index chosen last_clk u"
    and step: "\<And>i c l v s1 dt. I i c l v \<Longrightarrow> s1 \<in> set script \<Longrightarrow>
       (case rotation_block prompt options i c l v (level s1 (clk_pin sel)) dt of
          (i1, c1, l1, v1) \<Rightarrow> I i1 c1 l1 v1)"
  shows "loop_post I script
           (select_loop sel prompt options index chosen last_clk last_sw u script)"
proof -
  have "set scr \<subseteq> set script \<Longrightarrow> I index chosen last_clk u \<Longrightarrow>
      loop_post I scr (select_loop sel prompt options index chosen last_clk last_sw u scr)"
    for scr index chosen last_clk last_sw u
  proof (induction "length scr" arbitrary: scr index chosen last_clk last_sw u rule: less_induct)
    case less
    show ?case
    proof (cases scr rule: three_samples)
      case 1
      with less.prems(2) show ?thesis
        by (simp add: select_loop_short loop_post_Interrupted)
    next
      case (2 s1 s2 s3 rest)
      obtain i1 c1 l1 u1 where rb: "rotation_block prompt options index chosen last_clk u
             (level s1 (clk_pin sel)) (level s2 (dt_pin sel)) = (i1, c1, l1, u1)"
        by (metis prod_cases4)
      from less.prems(1) 2 have "s1 \<in> set script" by auto
      from step [OF less.prems(2) this, of "level s2 (dt_pin sel)"] rb
      have I1: "I i1 c1 l1 u1" by simp
      have sub: "set rest \<subseteq> set script" using less.prems(1) 2 by auto
      have sfx: "suffix rest scr" unfolding 2 by (intro suffix_ConsI) simp
      have IH: "loop_post I scr (select_loop sel prompt options i1 c1 l1 sw u1 r)"
        if "suffix r rest" for r sw
      proof -
        have "length r < length scr" using suffix_length_le [OF that] 2 by simp
        moreover have "set r \<subseteq> set script" using set_mono_suffix [OF that] sub by blast
        ultimately have "loop_post I r (select_loop sel prompt options i1 c1 l1 sw u1 r)"
          using less.hyps I1 by blast
        then show ?thesis by (rule loop_post_mono) (rule suffix_order.trans [OF that sfx])
      qed
      show ?thesis
      proof (cases "level s3 (sw_pin sel) \<noteq> last_sw")
        case False
        then have eq: "select_loop sel prompt options index chosen last_clk last_sw u scr =
            select_loop sel prompt options i1 c1 l1 last_sw u1 rest"
          by (simp add: 2 rb)
        show ?thesis unfolding eq by (rule IH) simp
      next
        case True
        show ?thesis
        proof (cases rest)
          case Nil
          with True have "select_loop sel prompt options index chosen last_clk last_sw u scr
              = (Interrupted, u1)" by (simp add: 2 rb)
          with I1 show ?thesis by (simp add: loop_post_Interrupted)
        next
          case (Cons s4 rest4)
          have sub4: "suffix rest4 rest" unfolding Cons by (intro suffix_ConsI) simp
          consider (same) "level s4 (sw_pin sel) = last_sw"
            | (press) "level s4 (sw_pin sel) \<noteq> last_sw" "sw_pressed sel (level s4 (sw_pin sel))"
            | (release) "level s4 (sw_pin sel) \<noteq> last_sw" "\<not> sw_pressed sel (level s4 (sw_pin sel))"
            by blast
          then show ?thesis
          proof cases
            case same
            with True have eq: "select_loop sel prompt options index chosen last_clk last_sw u scr =
                select_loop sel prompt options i1 c1 l1 last_sw u1 rest4"
              by (simp add: 2 rb Cons)
            show ?thesis unfolding eq by (rule IH [OF sub4])
          next
            case release
            with True have eq: "select_loop sel prompt options index chosen last_clk last_sw u scr =
                select_loop sel prompt options i1 c1 l1 (level s4 (sw_pin sel)) u1 rest4"
              by (simp add: 2 rb Cons)
            show ?thesis unfolding eq by (rule IH [OF sub4])
          next
            case press
            with True have eq: "select_loop sel prompt options index chosen last_clk last_sw u scr =
                (case wait_release sel rest4 of
                                  None \<Rightarrow> (Interrupted, u1)
                                | Some rest5 \<Rightarrow> (Returned c1 rest5, u1))"
              by (simp add: 2 rb Cons)
            show ?thesis
            proof (cases "wait_release sel rest4")
              case None
              with I1 show ?thesis unfolding eq by (simp add: loop_post_Interrupted)
            next
              case (Some rest5)
              from wait_release_suffix [OF Some] have "suffix rest5 scr"
                by (rule suffix_order.trans) (rule suffix_order.trans [OF sub4 sfx])
              with I1 Some show ?thesis unfolding eq by (simp add: loop_post_Returned)
            qed
          qed
        qed
      qed
    qed
  qed
  from this [of script, OF subset_refl inv] show ?thesis .
qed

lemma select_loop_consumes:
  assumes "select_loop sel prompt options index chosen last_clk last_sw u script = (Returned x rest, u')"
  shows "length rest \<le> length script"
proof -
  have "loop_post (\<lambda>_ _ _ _. True) script
           (select_loop sel prompt options index chosen last_clk last_sw u script)"
    by (rule select_loop_rule) (auto split: prod.splits)
  with assms show ?thesis by (simp add: loop_post_def suffix_length_le)
qed

lemma select_one_consumes:
  assumes "select_one sel prompt options initial_index u script = (Returned x rest, u')"
  shows "length rest < length script"
proof -
  from assms obtain rest0 u0 where
    c: "LCDDisplay_clear_scroll u script = (Returned () rest0, u0)"
    and r: "(if options = [] then (Raised ZeroDivisionError, u0)
          else (let index = initial_index mod int (length options);
                    chosen = options ! nat index;
                    u1 = LCDDisplay_write prompt (fst chosen) u0
                in case rest0 of
                     s_clk # s_t # rest2 \<Rightarrow>
                       (case settle sel (clock s_t) rest2 of
                          None \<Rightarrow> (Interrupted, u1)
                        | Some rest3 \<Rightarrow>
                            (case rest3 of
                               [] \<Rightarrow> (Interrupted, u1)
                             | s_sw # rest4 \<Rightarrow>
                                 select_loop sel prompt options index chosen
                                   (level s_clk (clk_pin sel)) (level s_sw (sw_pin sel))
                                   u1 rest4))
                   | _ \<Rightarrow> (Interrupted, u1))) = (Returned x rest, u')"
    unfolding select_one_def by (auto elim!: and_then_ReturnedE)
  from clear_scroll_consumes [OF c] have 0: "length rest0 < length script" .
  from r have "length rest \<le> length rest0"
    by (auto simp: Let_def split: if_splits list.splits option.splits
        dest!: settle_consumes select_loop_consumes)
  with 0 show ?thesis by simp
qed

lemma select_pair_consumes:
  assumes "select_pair sel choices initial_index u script = (Returned x rest, u')"
  shows "length rest < length script"
  using assms unfolding select_pair_def
  by (auto elim!: and_then_ReturnedE dest!: select_one_consumes split: prod.splits)

lemma select_languages_startup_consumes:
  "select_languages_startup c script = (Returned x rest, c') \<Longrightarrow> length rest < length script"
  unfolding select_languages_startup_def
  by (auto elim!: and_then_ReturnedE dest!: select_pair_consumes split: prod.splits)

lemma reselect_languages_consumes:
  "reselect_languages c script = (Returned x rest, c') \<Longrightarrow> length rest < length script"
  unfolding reselect_languages_def
  by (auto elim!: and_then_ReturnedE dest!: select_pair_consumes split: prod.splits)

lemma start_record_consumes:
  "start_record c script = (Returned x rest, c') \<Longrightarrow> length rest \<le> length script"
  unfolding start_record_def
  by (auto elim!: and_then_ReturnedE dest!: start_consumes clear_scroll_consumes
      split: prod.splits if_splits)

lemma stop_record_consumes:
  "stop_record c src tgt script = (Returned x rest, c') \<Longrightarrow> length rest \<le> length script"
  unfolding stop_record_def
  by (auto elim!: and_then_ReturnedE dest!: stop_consumes process_consumes
      split: prod.splits if_splits)

lemma stop_record_with_consumes:
  "stop_record_with c pair script = (Returned x rest, c') \<Longrightarrow> length rest \<le> length script"
  unfolding stop_record_with_def
  by (auto dest!: stop_record_consumes split: option.splits)

lemma read_poll_consumes:
  "read_poll p script = Some (now, raw, rest) \<Longrightarrow> length rest < length script"
  by (auto simp: read_poll_def split: list.splits)

lemma button_a_phase_consumes:
  "button_a_phase c script = (Returned x rest, c') \<Longrightarrow> length rest < length script"
  unfolding button_a_phase_def
  by (auto simp: Let_def dest!: read_poll_consumes start_record_consumes stop_record_with_consumes
      split: option.splits prod.splits if_splits)

lemma button_b_phase_consumes:
  "button_b_phase c script = (Returned x rest, c') \<Longrightarrow> length rest < length script"
  unfolding button_b_phase_def
  by (auto simp: Let_def dest!: read_poll_consumes start_record_consumes stop_record_with_consumes
      split: option.splits prod.splits if_splits)

lemma longpress_phase_consumes:
  "longpress_phase c script = (Returned x rest, c') \<Longrightarrow> length rest < length script"
  unfolding longpress_phase_def
  by (auto simp: Let_def dest!: read_poll_consumes reselect_languages_consumes
      split: option.splits prod.splits if_splits)

lemma iteration_consumes:
  "iteration c script = (Returned x rest, c') \<Longrightarrow> length rest < length script"
  unfolding iteration_def
  by (auto elim!: and_then_ReturnedE
      dest!: button_a_phase_consumes button_b_phase_consumes longpress_phase_consumes
        tick_scroll_consumes)

text \<open>
  The main loop of \<open>run\<close>: it ends only by a \<open>KeyboardInterrupt\<close> or by an exception
  raised inside an iteration. Every iteration consumes samples, so the loop over a
  finite script terminates.
\<close>

datatype halt = KeyboardInterrupt | Exception error

function main_loop :: "app_controller \<Rightarrow> sample list \<Rightarrow> halt \<times> app_controller" where
  "main_loop c script =
     (case iteration c script of
        (Returned _ rest, c1) \<Rightarrow> main_loop c1 rest
      | (Raised e, c1) \<Rightarrow> (Exception e, c1)
      | (Interrupted, c1) \<Rightarrow> (KeyboardInterrupt, c1))"
  by pat_completeness auto
termination
  by (relation "measure (\<lambda>(c, script). length script)") (auto dest: iteration_consumes [OF sym])

declare main_loop.simps [simp del]


text \<open>
  The \<open>finally\<close> block of \<open>run\<close>; it reads from the script \<open>after\<close> of what the
  environment answers once the interrupt has arrived.
\<close>

definition cleanup :: "app_controller \<Rightarrow> sample list \<Rightarrow> unit result \<times> app_controller" where
  "cleanup c after =
     and_then (if is_recording (recorder c) then stop_record_with c (lang_a_to_b c) after
               else (Returned () after, c))
       (\<lambda>_ rest c1.
          (Returned () rest,
           LCDDisplay_shutdown (ascii ''Shutting down'') [] (emit GpioCleanup c1)))"

definition not_selected :: error where
  "not_selected =
     RuntimeError (ascii ''Languages not selected. Call select_languages_startup() before run().'')"

text \<open>
  \<open>AppController.run\<close>: the check, \<open>show_ready\<close>, the loop, and the \<open>finally\<close> block; an
  exception that ended the loop is raised again after the block.
\<close>

definition run ::
  "app_controller \<Rightarrow> sample list \<Rightarrow> sample list \<Rightarrow> unit result \<times> app_controller" where
  "run c script after =
     (if lang_a_to_b c = None \<or> lang_b_to_a c = None then (Raised not_selected, c)
      else (case main_loop (show_ready c) script of
              (KeyboardInterrupt, c1) \<Rightarrow> cleanup c1 after
            | (Exception e, c1) \<Rightarrow> and_then (cleanup c1 after) (\<lambda>_ _ c2. (Raised e, c2))))"

section \<open>Notions used to state what a call changes\<close>

text \<open>
  \<open>io_step u u' es\<close>: the state \<open>u'\<close> differs from \<open>u\<close> at most in the display object,
  and its log is that of \<open>u\<close> followed by \<open>es\<close>. \<open>writes_with prompt es\<close>: every effect in
  \<open>es\<close> is a display write with first line \<open>prompt\<close>.
\<close>

definition io_step :: "'a io_scheme \<Rightarrow> 'a io_scheme \<Rightarrow> event list \<Rightarrow> bool" where
  "io_step u u' es \<longleftrightarrow> (\<exists>l. u' = u\<lparr>lcd := l, events := events u @ es\<rparr>)"

definition writes_with :: "ustr \<Rightarrow> event list \<Rightarrow> bool" where
  "writes_with prompt es \<longleftrightarrow> (\<forall>e\<in>set es. \<exists>nm. e = LcdWrite prompt nm)"

section \<open>Re-selection and the recording interval\<close>

text \<open>
  \<open>reselect_languages\<close> is the only place that writes \<open>Change langs\<close> to the display, so
  that write marks a re-selection in the log. \<open>no_reselect_while_recording r es\<close> reads
  the log \<open>es\<close> from left to right with a flag, initially \<open>r\<close>, that is set when
  \<open>arecord\<close> is started and cleared when it is sent the interrupt signal, and holds when
  no such write occurs while the flag is set; \<open>recording_after r es\<close> is the flag at the
  end of \<open>es\<close>.
\<close>

definition change_langs :: ustr where
  "change_langs = ascii ''Change langs''"

fun recording_after :: "bool \<Rightarrow> event list \<Rightarrow> bool" where
  "recording_after r [] = r"
| "recording_after r (Popen_arecord _ _ _ _ # es) = recording_after True es"
| "recording_after r (SendSignal _ # es) = recording_after False es"
| "recording_after r (_ # es) = recording_after r es"

fun no_reselect_while_recording :: "bool \<Rightarrow> event list \<Rightarrow> bool" where
  "no_reselect_while_recording r [] = True"
| "no_reselect_while_recording r (Popen_arecord _ _ _ _ # es) = no_reselect_while_recording True es"
| "no_reselect_while_recording r (SendSignal _ # es) = no_reselect_while_recording False es"
| "no_reselect_while_recording r (LcdWrite l1 l2 # es) =
     (\<not> (r \<and> l1 = change_langs) \<and> no_reselect_while_recording r es)"
| "no_reselect_while_recording r (_ # es) = no_reselect_while_recording r es"

definition plain :: "event \<Rightarrow> bool" where
  "plain e =
     (case e of
        Popen_arecord _ _ _ _ \<Rightarrow> False
      | SendSignal _ \<Rightarrow> False
      | LcdWrite l1 _ \<Rightarrow> l1 \<noteq> change_langs
      | _ \<Rightarrow> True)"

definition step_ok :: "app_controller \<Rightarrow> 'a result \<times> app_controller \<Rightarrow> bool" where
  "step_ok c out =
     (case out of
        (res, c') \<Rightarrow>
          (\<exists>es. events c' = events c @ es
             \<and> no_reselect_while_recording (is_recording (recorder c)) es
             \<and> (\<forall>x rest. res = Returned x rest \<longrightarrow>
                   recording_after (is_recording (recorder c)) es = is_recording (recorder c')))
          \<and> (\<forall>m. res \<noteq> Raised (RuntimeError m)))"

text \<open>
  \<open>quiet u u'\<close>: the step from \<open>u\<close> to \<open>u'\<close> changes the display and the log only, and
  adds to the log neither a start or stop of \<open>arecord\<close> nor a re-selection. \<open>calm es\<close>:
  no re-selection in \<open>es\<close>.
\<close>

definition quiet :: "'a io_scheme \<Rightarrow> 'a io_scheme \<Rightarrow> bool" where
  "quiet u u' \<longleftrightarrow> (\<exists>es. io_step u u' es \<and> list_all plain es)"

definition calm :: "event list \<Rightarrow> bool" where
  "calm es \<longleftrightarrow> list_all (\<lambda>e. case e of LcdWrite l1 _ \<Rightarrow> l1 \<noteq> change_langs | _ \<Rightarrow> True) es"

section \<open>Example inputs\<close>

text \<open>
  Inputs for the worked examples: collaborators that answer with fixed values, and a
  sample whose pins all read the same level.
\<close>

definition demo_services :: "ustr \<Rightarrow> ustr \<Rightarrow> ustr option \<Rightarrow> collaborators" where
  "demo_services heard translated wav =
     \<lparr>transcribe_fn = (\<lambda>_. heard), translate_fn = (\<lambda>_ _ _. translated),
      tts_synthesize = (\<lambda>_ _. wav)\<rparr>"

definition demo_sample :: "real \<Rightarrow> int \<Rightarrow> bool \<Rightarrow> collaborators \<Rightarrow> sample" where
  "demo_sample t lv ex sv = \<lparr>clock = t, level = (\<lambda>_. lv), proc_exits = ex, services = sv\<rparr>"

definition reading :: "real \<Rightarrow> int \<Rightarrow> sample" where
  "reading t lv = demo_sample t lv True (demo_services [] [] None)"

definition demo_lcd :: lcd_display where
  "demo_lcd = \<lparr>cols = 16, rows = 2, scroll_interval_s = 2, device = True,
               scroll_text = [], scroll_offset = 0, scroll_last_time = 0\<rparr>"

definition demo_io :: io where
  "demo_io = \<lparr>lcd = demo_lcd, events = []\<rparr>"

definition demo_recorder :: "process option \<Rightarrow> real option \<Rightarrow> audio_recorder" where
  "demo_recorder p t =
     \<lparr>mic_device = ascii ''plughw:CARD=Device,DEV=0'', rate = 16000, fmt = ascii ''S16_LE'',
      out_dir = ascii ''audio_files'', filename = ascii ''speech.wav'',
      proc = p, started_t = t\<rparr>"

definition demo_selector :: language_selector where
  "demo_selector =
     \<lparr>sel_gpio = \<lparr>HIGH = 1, LOW = 0\<rparr>, clk_pin = 32, dt_pin = 33, sw_pin = 7,
      sw_active_low = True\<rparr>"

definition demo_choices :: "(ustr \<times> ustr) list" where
  "demo_choices =
     [(ascii ''English'', ascii ''eng_Latn''), (ascii ''Italian'', ascii ''ita_Latn''),
      (ascii ''Spanish'', ascii ''spa_Latn'')]"

text \<open>
  A sample of the encoder with the given levels of CLK, DT and the switch (pins 32, 33
  and any other), and the samples one \<open>select_one\<close> reads when the knob is pressed
  without being turned (the clock of \<open>clear_scroll\<close>, CLK, the clock of the settle loop,
  the switch released twice, then CLK, DT and the switch pressed, pressed again after the
  debounce sleep, and released), and when it is turned one step forward first.
\<close>

definition knob :: "int \<Rightarrow> int \<Rightarrow> int \<Rightarrow> sample" where
  "knob clk dt sw =
     \<lparr>clock = 0, level = (\<lambda>p. if p = 32 then clk else if p = 33 then dt else sw),
      proc_exits = True, services = demo_services [] [] None\<rparr>"

definition press_only :: "sample list" where
  "press_only =
     [knob 0 0 1, knob 0 0 1, knob 0 0 1, knob 0 0 1, knob 0 0 1,
      knob 0 0 0, knob 0 0 0, knob 0 0 0, knob 0 0 0, knob 0 0 1]"

definition turn_then_press :: "sample list" where
  "turn_then_press =
     [knob 0 0 1, knob 0 0 1, knob 0 0 1, knob 0 0 1, knob 0 0 1,
      knob 1 0 1, knob 1 0 1, knob 1 0 1,
      knob 1 0 1, knob 1 0 1, knob 1 0 0, knob 1 0 0, knob 1 0 1]"

text \<open>
  A controller as \<open>build_controller\<close> assembles it (buttons on pins 29 and 31, the
  encoder switch on pin 7 with a long press of two seconds, a debounce time of 1/16 s),
  the same controller with both selections made, and one that is recording while the
  encoder switch has been held since time 0; the samples read by the \<open>finally\<close> block
  of the example run.
\<close>

definition demo_button :: "int \<Rightarrow> debounced_button" where
  "demo_button p = DebouncedButton_init p \<lparr>HIGH = 1, LOW = 0\<rparr> True (1/16) 0 0"

definition demo_longpress :: long_press_detector where
  "demo_longpress = LongPressDetector_init 7 \<lparr>HIGH = 1, LOW = 0\<rparr> 2 False (1/16) 1 0"

definition demo_app :: app_controller where
  "demo_app = AppController_init demo_lcd (demo_recorder None None) \<lparr>lcd_cols = 16\<rparr>
     (demo_button 29) (demo_button 31) demo_longpress demo_selector demo_choices"

definition english :: "ustr \<times> ustr" where
  "english = (ascii ''eng_Latn'', ascii ''eng_Latn'')"

definition held_while_recording :: app_controller where
  "held_while_recording =
     demo_app\<lparr>recorder := demo_recorder (Some (Arecord (ascii ''audio_files/speech.wav''))) (Some 1),
       lang_longpress := demo_longpress\<lparr>raw_last := 0, stable := 0, press_start_t := Some 0\<rparr>,
       lang_a_to_b := Some english, lang_b_to_a := Some english,
       name_1 := Some (ascii ''English''), name_2 := Some (ascii ''English'')\<rparr>"

definition demo_selected :: app_controller where
  "demo_selected =
     demo_app\<lparr>lcd := demo_lcd\<lparr>scroll_text := [], scroll_offset := 0, scroll_last_time := 0\<rparr>,
        events := [LcdWrite (ascii ''Select Lang 1:'') (ascii ''English''),
                   LcdWrite (ascii ''Select Lang 2:'') (ascii ''English'')],
        lang_a_to_b := Some english, lang_b_to_a := Some english,
        name_1 := Some (ascii ''English''), name_2 := Some (ascii ''English'')\<rparr>"

definition demo_after :: "sample list" where
  "demo_after = [reading 11 0, reading 12 0, reading 13 0, reading 14 0]"

section \<open>Exact clock differences\<close>

lemma round_half_even_of_int [simp]: "round_half_even (of_int m) = m"
  by (simp add: round_half_even_def)

lemma fsub_self [simp]: "fsub t t = 0"
  by (simp add: fsub_def round_double_def)

lemma ulp_exponent_le:
  assumes "m \<noteq> 0" "\<bar>m\<bar> < 2 ^ 53" "- 1074 \<le> k"
  shows "ulp_exponent (of_int m * 2 powr of_int k) \<le> k"
proof -
  let ?x = "of_int m * 2 powr of_int k :: real"
  have pos: "0 < \<bar>?x\<bar>" using assms(1) by simp
  have "\<bar>?x\<bar> = \<bar>of_int m\<bar> * 2 powr of_int k" by (simp add: abs_mult)
  also have "\<dots> < 2 ^ 53 * 2 powr of_int k"
  proof -
    have "\<bar>of_int m :: real\<bar> < 2 ^ 53" using assms(2) by (metis of_int_abs of_int_less_numeral_power_cancel_iff)
    then show ?thesis by simp
  qed
  also have "\<dots> = 2 powr (53 + of_int k)" by (simp add: powr_add)
  finally have "\<bar>?x\<bar> < 2 powr (53 + of_int k)" .
  then have "log 2 \<bar>?x\<bar> < 53 + of_int k"
    using pos by (subst log_less_iff) simp_all
  then have "\<lfloor>log 2 \<bar>?x\<bar>\<rfloor> < 53 + k" by (simp add: floor_less_iff)
  with assms(3) show ?thesis by (simp add: ulp_exponent_def)
qed

lemma round_double_exact:
  assumes "\<bar>m\<bar> < 2 ^ 53" "- 1074 \<le> k"
  shows "round_double (of_int m * 2 powr of_int k) = of_int m * 2 powr of_int k"
proof (cases "m = 0")
  case True
  then show ?thesis by (simp add: round_double_def)
next
  case False
  let ?x = "of_int m * 2 powr of_int k :: real"
  define q where "q = ulp_exponent ?x"
  have qk: "q \<le> k" unfolding q_def using False assms by (rule ulp_exponent_le)
  have "?x / 2 powr of_int q = of_int m * 2 powr (of_int k - of_int q)"
    by (simp add: powr_diff)
  also have "2 powr (of_int k - of_int q) = (2::real) ^ nat (k - q)"
    using qk by (simp add: powr_realpow [symmetric])
  also have "of_int m * (2::real) ^ nat (k - q) = of_int (m * 2 ^ nat (k - q))" by simp
  finally have d: "?x / 2 powr of_int q = of_int (m * 2 ^ nat (k - q))" .
  have nz: "2 powr of_int q \<noteq> (0::real)" by simp
  have "of_int (m * 2 ^ nat (k - q)) * 2 powr of_int q = ?x"
    unfolding d [symmetric] using nz by simp
  moreover have "?x \<noteq> 0" using False by simp
  ultimately show ?thesis
    unfolding round_double_def q_def [symmetric] d by (simp del: of_int_mult of_int_power)
qed

lemma fsub_exact:
  assumes "on_grid n a" "on_grid n b"
  shows "fsub a b = a - b"
proof -
  define A where "A = \<lfloor>a * 2 ^ n\<rfloor>"
  define B where "B = \<lfloor>b * 2 ^ n\<rfloor>"
  from assms have A: "of_int A = a * 2 ^ n" and B: "of_int B = b * 2 ^ n"
    by (simp_all add: on_grid_def A_def B_def)
  from assms have n: "n \<le> 1074" by (simp add: on_grid_def)
  from assms A have "0 \<le> (of_int A :: real)" "(of_int A :: real) < 2 ^ 53" by (simp_all add: on_grid_def)
  then have rA: "0 \<le> A" "A < 2 ^ 53" by (simp_all add: of_int_less_numeral_power_cancel_iff [symmetric] del: of_int_less_numeral_power_cancel_iff)
  from assms B have "0 \<le> (of_int B :: real)" "(of_int B :: real) < 2 ^ 53" by (simp_all add: on_grid_def)
  then have rB: "0 \<le> B" "B < 2 ^ 53" by (simp_all add: of_int_less_numeral_power_cancel_iff [symmetric] del: of_int_less_numeral_power_cancel_iff)
  have ab: "\<bar>A - B\<bar> < 2 ^ 53" using rA rB by simp
  have "a - b = (of_int A - of_int B) / 2 ^ n" unfolding A B by (simp add: diff_divide_distrib)
  also have "\<dots> = of_int (A - B) * 2 powr of_int (- int n)"
    by (simp add: powr_minus powr_realpow divide_inverse)
  finally have e: "a - b = of_int (A - B) * 2 powr of_int (- int n)" .
  have "round_double (of_int (A - B) * 2 powr of_int (- int n)) = of_int (A - B) * 2 powr of_int (- int n)"
    using ab n by (intro round_double_exact) simp_all
  then show ?thesis unfolding fsub_def e .
qed

text \<open>
  Two readings of a present-day clock, on the grid for \<open>n = 22\<close>.
\<close>

lemma epoch_readings_exact:
  "on_grid 22 (1762214400 + 3/8) \<and> on_grid 22 (1762214400 + 7/16)
   \<and> fsub (1762214400 + 7/16) (1762214400 + 3/8) = 1/16"
proof -
  have g: "on_grid 22 (1762214400 + 3/8)" "on_grid 22 (1762214400 + 7/16)"
    by (simp_all add: on_grid_def)
  from fsub_exact [OF g(2) g(1)] g show ?thesis by simp
qed

text \<open>
  Off the grid the subtraction rounds: the doubles \<open>9/4\<close> and \<open>1/4 + 1 / 2 ^ 54\<close> differ
  by less than 2, and their double difference is 2.
\<close>

lemma fsub_rounds_up_to_two: "fsub (9/4) (1/4 + 1 / 2 ^ 54) = 2"
proof -
  define x :: real where "x = 9/4 - (1/4 + 1 / 2 ^ 54)"
  have x: "x = 36028797018963967 / 18014398509481984" by (simp add: x_def)
  have bounds: "1 \<le> x" "x < 2" by (simp_all add: x)
  have "\<lfloor>log 2 \<bar>x\<bar>\<rfloor> = 0"
  proof -
    have "0 \<le> log 2 x" using bounds by simp
    moreover have "log 2 x < 1" using bounds by (subst log_less_iff) simp_all
    ultimately have "\<lfloor>log 2 x\<rfloor> = 0" by (simp add: floor_eq_iff)
    with bounds show ?thesis by simp
  qed
  then have u: "ulp_exponent x = - 52" by (simp add: ulp_exponent_def)
  have p: "2 powr (- 52) = 1 / (2::real) ^ 52"
    by (simp add: powr_minus_divide)
  have q: "x / 2 powr (- 52) = 36028797018963967 / 4" by (simp add: p x)
  have "round_half_even (36028797018963967 / 4) = 9007199254740992"
    by (simp add: round_half_even_def Let_def)
  then have r: "round_half_even (x / 2 powr (- 52)) = 9007199254740992" unfolding q .
  have nz: "x \<noteq> 0" using bounds by simp
  have "round_double x = of_int (round_half_even (x / 2 powr (- 52))) * 2 powr (- 52)"
    unfolding round_double_def u using nz by (simp only: if_False of_int_minus of_int_numeral)
  also have "\<dots> = of_int 9007199254740992 * 2 powr (- 52)" by (simp only: r)
  also have "\<dots> = 2" by (simp add: p)
  finally have "round_double x = 2" .
  then show ?thesis by (simp add: fsub_def x_def)
qed

section \<open>Properties of the debounced button\<close>

lemma poll_keeps_config:
  "DebouncedButton_poll b now raw = (e, b') \<Longrightarrow>
     debounce_s b' = debounce_s b \<and> gpio b' = gpio b \<and> active_high b' = active_high b
     \<and> pin b' = pin b"
  by (auto simp: DebouncedButton_poll_def track_raw_def Let_def split: if_splits)

lemma poll_tracks_raw:
  "DebouncedButton_poll b now raw = (e, b') \<Longrightarrow>
     raw_last b' = raw \<and> raw_changed_t b' = (if raw \<noteq> raw_last b then now else raw_changed_t b)"
  by (auto simp: DebouncedButton_poll_def track_raw_def Let_def split: if_splits)

lemma poll_all_tracks_raw:
  "poll_all b ps = (es, b') \<Longrightarrow>
     raw_last b' = last_raw (raw_last b) ps
     \<and> raw_changed_t b' = last_raw_change (raw_changed_t b) (raw_last b) ps
     \<and> debounce_s b' = debounce_s b \<and> gpio b' = gpio b \<and> active_high b' = active_high b"
proof (induction ps arbitrary: b es b')
  case Nil
  then show ?case by simp
next
  case (Cons p ps)
  obtain now raw where p: "p = (now, raw)" by (cases p)
  obtain e b1 where s1: "DebouncedButton_poll b now raw = (e, b1)"
    by (cases "DebouncedButton_poll b now raw")
  obtain es2 b2 where s2: "poll_all b1 ps = (es2, b2)" by (cases "poll_all b1 ps")
  from Cons.prems p s1 s2 have b': "b' = b2" by simp
  from Cons.IH [OF s2] poll_tracks_raw [OF s1] poll_keeps_config [OF s1] b'
  show ?case by (simp add: p)
qed
lemma poll_spec:
  assumes "DebouncedButton_poll b now raw = (e, b')"
  shows "raw_last b' = raw"
    and "raw_changed_t b' = (if raw \<noteq> raw_last b then now else raw_changed_t b)"
    and "e = (if fsub now (raw_changed_t b') \<ge> debounce_s b \<and> raw \<noteq> stable b
              then Some (event_of b raw) else None)"
    and "stable b' = (if e = None then stable b else raw)"
    and "debounce_s b' = debounce_s b" and "gpio b' = gpio b"
    and "active_high b' = active_high b"
  using assms
  by (auto simp: DebouncedButton_poll_def track_raw_def Let_def event_of_def is_pressed_level_def
      split: if_splits)

lemma poll_all_Cons:
  assumes "poll_all b ((t, v) # ps) = (es, b')"
  obtains e b1 es2 where "DebouncedButton_poll b t v = (e, b1)" "poll_all b1 ps = (es2, b')"
    "es = e # es2"
  using assms by (auto split: prod.splits)

lemma window_silent:
  assumes "w \<le> t" "t < w + d" "w \<le> c" "on_grid n t" "on_grid n c"
  shows "\<not> fsub t c \<ge> d"
  using assms fsub_exact [of n t c] by simp

lemma bounce_in_window_silent:
  "poll_all b bs = (es, b') \<Longrightarrow>
   raw_last b = stable b \<or> (w \<le> raw_changed_t b \<and> on_grid n (raw_changed_t b)) \<Longrightarrow>
   \<forall>(t, v) \<in> set bs. w \<le> t \<and> t < w + debounce_s b \<and> on_grid n t \<Longrightarrow>
   (\<forall>e \<in> set es. e = None) \<and> stable b' = stable b
     \<and> (raw_last b' = stable b' \<or> (w \<le> raw_changed_t b' \<and> on_grid n (raw_changed_t b')))"
proof (induction bs arbitrary: b es)
  case Nil
  then show ?case by simp
next
  case (Cons p bs)
  obtain t v where p: "p = (t, v)" by (cases p)
  from Cons.prems(3) p have win: "w \<le> t" "t < w + debounce_s b" "on_grid n t"
    and rest: "\<forall>(t, v) \<in> set bs. w \<le> t \<and> t < w + debounce_s b \<and> on_grid n t" by auto
  from win have dpos: "0 < debounce_s b" by simp
  from Cons.prems(1) p have pa: "poll_all b ((t, v) # bs) = (es, b')" by simp
  from pa obtain e b1 es2 where
    s1: "DebouncedButton_poll b t v = (e, b1)" and s2: "poll_all b1 bs = (es2, b')"
    and es: "es = e # es2" by (rule poll_all_Cons)
  note sp = poll_spec [OF s1]
  have e: "e = None"
  proof (cases "v \<noteq> raw_last b")
    case True
    with sp(2,3) dpos show ?thesis by simp
  next
    case False
    show ?thesis
    proof (cases "v = stable b")
      case True
      with sp(3) show ?thesis by simp
    next
      case ne: False
      with False Cons.prems(2) have "w \<le> raw_changed_t b" "on_grid n (raw_changed_t b)" by auto
      from window_silent [OF win(1,2) this(1) win(3) this(2)] sp(2,3) False show ?thesis by simp
    qed
  qed
  have st: "stable b1 = stable b" using sp(4) e by simp
  have inv1: "raw_last b1 = stable b1 \<or> (w \<le> raw_changed_t b1 \<and> on_grid n (raw_changed_t b1))"
    using sp(1,2) st Cons.prems(2) win by (auto split: if_splits)
  have win1: "\<forall>(t, v) \<in> set bs. w \<le> t \<and> t < w + debounce_s b1 \<and> on_grid n t"
    using rest sp(5) by simp
  from Cons.IH [OF s2 inv1 win1] es e st show ?case by auto
qed

lemma misread_in_window_silent:
  "poll_all b ms = (es, b') \<Longrightarrow>
   v \<noteq> raw_last b \<or> (w \<le> raw_changed_t b \<and> on_grid n (raw_changed_t b)) \<Longrightarrow>
   \<forall>(t, x) \<in> set ms. x = v \<and> w \<le> t \<and> t < w + debounce_s b \<and> on_grid n t \<Longrightarrow>
   (\<forall>e \<in> set es. e = None) \<and> stable b' = stable b \<and> debounce_s b' = debounce_s b
     \<and> (if ms = [] then raw_last b' = raw_last b else raw_last b' = v)"
proof (induction ms arbitrary: b es)
  case Nil
  then show ?case by simp
next
  case (Cons p ms)
  obtain t x where p: "p = (t, x)" by (cases p)
  from Cons.prems(3) p have win: "x = v" "w \<le> t" "t < w + debounce_s b" "on_grid n t"
    and rest: "\<forall>(t, x) \<in> set ms. x = v \<and> w \<le> t \<and> t < w + debounce_s b \<and> on_grid n t" by auto
  from win have dpos: "0 < debounce_s b" by simp
  from Cons.prems(1) p win have pa: "poll_all b ((t, v) # ms) = (es, b')" by simp
  from pa obtain e b1 es2 where
    s1: "DebouncedButton_poll b t v = (e, b1)" and s2: "poll_all b1 ms = (es2, b')"
    and es: "es = e # es2" by (rule poll_all_Cons)
  note sp = poll_spec [OF s1]
  have e: "e = None"
  proof (cases "v \<noteq> raw_last b")
    case True
    with sp(2,3) dpos show ?thesis by simp
  next
    case False
    with Cons.prems(2) have "w \<le> raw_changed_t b" "on_grid n (raw_changed_t b)" by auto
    from window_silent [OF win(2,3) this(1) win(4) this(2)] sp(2,3) False show ?thesis by simp
  qed
  have st: "stable b1 = stable b" using sp(4) e by simp
  have inv1: "v \<noteq> raw_last b1 \<or> (w \<le> raw_changed_t b1 \<and> on_grid n (raw_changed_t b1))"
    using sp(1,2) Cons.prems(2) win by (auto split: if_splits)
  have win1: "\<forall>(t, x) \<in> set ms. x = v \<and> w \<le> t \<and> t < w + debounce_s b1 \<and> on_grid n t"
    using rest sp(5) by simp
  from Cons.IH [OF s2 inv1 win1] es e st sp(1,5) show ?case by auto
qed

lemma settled_silent:
  "poll_all b ss = (es, b') \<Longrightarrow> stable b = F \<Longrightarrow> \<forall>(t, v) \<in> set ss. v = F \<Longrightarrow>
     (\<forall>e \<in> set es. e = None) \<and> stable b' = F"
proof (induction ss arbitrary: b es)
  case Nil
  then show ?case by simp
next
  case (Cons p ss)
  obtain t v where p: "p = (t, v)" by (cases p)
  from Cons.prems(3) p have v: "v = F" and rest: "\<forall>(t, v) \<in> set ss. v = F" by auto
  from Cons.prems(1) p have pa: "poll_all b ((t, v) # ss) = (es, b')" by simp
  from pa obtain e b1 es2 where
    s1: "DebouncedButton_poll b t v = (e, b1)" and s2: "poll_all b1 ss = (es2, b')"
    and es: "es = e # es2" by (rule poll_all_Cons)
  note sp = poll_spec [OF s1]
  have e: "e = None" using sp(3) v Cons.prems(2) by simp
  have st: "stable b1 = F" using sp(4) e Cons.prems(2) by simp
  from Cons.IH [OF s2 st rest] es e show ?case by simp
qed

lemma event_of_cong:
  "gpio b' = gpio b \<Longrightarrow> active_high b' = active_high b \<Longrightarrow> event_of b' F = event_of b F"
  by (simp add: event_of_def is_pressed_level_def)

lemma settled_at_most_one:
  "poll_all b ss = (es, b') \<Longrightarrow> \<forall>(t, v) \<in> set ss. v = F \<Longrightarrow>
     length (filter (\<lambda>e. e \<noteq> None) es) \<le> 1
     \<and> (\<forall>e \<in> set es. e = None \<or> e = Some (event_of b F))
     \<and> ((\<exists>e \<in> set es. e \<noteq> None) \<longrightarrow> stable b' = F)"
proof (induction ss arbitrary: b es)
  case Nil
  then show ?case by simp
next
  case (Cons p ss)
  obtain t v where p: "p = (t, v)" by (cases p)
  from Cons.prems(2) p have v: "v = F" and rest: "\<forall>(t, v) \<in> set ss. v = F" by auto
  from Cons.prems(1) p have pa: "poll_all b ((t, v) # ss) = (es, b')" by simp
  from pa obtain e b1 es2 where
    s1: "DebouncedButton_poll b t v = (e, b1)" and s2: "poll_all b1 ss = (es2, b')"
    and es: "es = e # es2" by (rule poll_all_Cons)
  note sp = poll_spec [OF s1]
  have ev: "event_of b1 F = event_of b F" using sp(6,7) by (rule event_of_cong)
  show ?case
  proof (cases "e = None")
    case True
    with Cons.IH [OF s2 rest] es ev show ?thesis by simp
  next
    case False
    with sp(3,4) v have e: "e = Some (event_of b F)" and st: "stable b1 = F"
      by (auto split: if_splits)
    from settled_silent [OF s2 st rest] have "\<forall>e \<in> set es2. e = None" "stable b' = F" by auto
    then have "filter (\<lambda>e. e \<noteq> None) es2 = []" by (simp add: filter_empty_conv)
    with es e \<open>\<forall>e \<in> set es2. e = None\<close> \<open>stable b' = F\<close> show ?thesis by simp
  qed
qed

lemma last_raw_change_snoc:
  "last_raw_change c r (hs @ [(t, v)]) =
     (if v \<noteq> last_raw r hs then t else last_raw_change c r hs)"
  by (induction hs arbitrary: c r) auto

lemma poll_all_append:
  "poll_all b (ps @ qs) =
     (let (es1, b1) = poll_all b ps; (es2, b2) = poll_all b1 qs in (es1 @ es2, b2))"
  by (induction ps arbitrary: b) (auto split: prod.splits)

lemma poll_after_history:
  assumes "poll_all (DebouncedButton_init p g ah d initial t0) hs = (es, b)"
  shows "fst (DebouncedButton_poll b now raw) =
        (if fsub now (last_raw_change t0 initial (hs @ [(now, raw)])) \<ge> d \<and> raw \<noteq> stable b
         then Some (event_of b raw) else None)"
proof -
  obtain e b' where s: "DebouncedButton_poll b now raw = (e, b')"
    by (cases "DebouncedButton_poll b now raw")
  from poll_all_tracks_raw [OF assms]
  have h: "raw_last b = last_raw initial hs" "raw_changed_t b = last_raw_change t0 initial hs"
    "debounce_s b = d"
    by (simp_all add: DebouncedButton_init_def)
  from poll_spec(2,3) [OF s] h s show ?thesis
    by (simp add: last_raw_change_snoc)
qed

lemma last_raw_change_on_grid:
  "on_grid n c \<Longrightarrow> \<forall>(t, x) \<in> set ps. on_grid n t \<Longrightarrow> on_grid n (last_raw_change c r ps)"
  by (induction ps arbitrary: c r) auto

lemma poll_after_history_exact:
  assumes "poll_all (DebouncedButton_init p g ah d initial t0) hs = (es, b)"
    and "on_grid n t0" "\<forall>(t, x) \<in> set hs. on_grid n t" "on_grid n now"
  shows "fst (DebouncedButton_poll b now raw) =
        (if now - last_raw_change t0 initial (hs @ [(now, raw)]) \<ge> d \<and> raw \<noteq> stable b
         then Some (event_of b raw) else None)"
proof -
  have "on_grid n (last_raw_change t0 initial (hs @ [(now, raw)]))"
    using assms(2,3,4) by (intro last_raw_change_on_grid) auto
  from fsub_exact [OF assms(4) this] poll_after_history [OF assms(1), of now raw]
  show ?thesis by simp
qed

lemma misread_then_revert:
  assumes "ms \<noteq> []" and "v \<noteq> raw_last b0"
    and "\<forall>(t, x) \<in> set ms. x = v \<and> w \<le> t \<and> t < w + debounce_s b0 \<and> on_grid n t"
    and "poll_all b0 (ms @ [(t2, raw_last b0)]) = (es, b')"
  shows "(\<forall>e \<in> set es. e = None) \<and> stable b' = stable b0 \<and> raw_last b' = raw_last b0"
proof -
  obtain es1 b1 where s1: "poll_all b0 ms = (es1, b1)" by (cases "poll_all b0 ms")
  obtain e b2 where s2: "DebouncedButton_poll b1 t2 (raw_last b0) = (e, b2)"
    by (cases "DebouncedButton_poll b1 t2 (raw_last b0)")
  from assms(4) s1 s2 have es: "es = es1 @ [e]" "b' = b2"
    by (simp_all add: poll_all_append)
  from misread_in_window_silent [OF s1 _ assms(3)] assms(1,2)
  have m: "\<forall>e \<in> set es1. e = None" "stable b1 = stable b0" "debounce_s b1 = debounce_s b0"
    "raw_last b1 = v" by auto
  from assms(1,3) have dpos: "0 < debounce_s b0" by (cases ms) auto
  note sp = poll_spec [OF s2]
  have e: "e = None" using sp(2,3) m assms(2) dpos by simp
  with sp(1,4) m es show ?thesis by simp
qed

lemma bounce_then_settle:
  assumes "raw_last b0 = stable b0"
    and win: "\<forall>(t, x) \<in> set bs. w \<le> t \<and> t < w + debounce_s b0 \<and> on_grid n t"
    and ss: "\<forall>(t, x) \<in> set ss. x = F"
    and s1: "poll_all b0 bs = (es1, b1)" and s2: "poll_all b1 ss = (es2, b2)"
  shows "(\<forall>e \<in> set es1. e = None)
      \<and> length (filter (\<lambda>e. e \<noteq> None) es2) \<le> 1
      \<and> (\<forall>e \<in> set es2. e = None \<or> e = Some (event_of b0 F))
      \<and> ((\<exists>e \<in> set es2. e \<noteq> None) \<longrightarrow> stable b2 = F)"
proof -
  from assms(1) have rest: "raw_last b0 = stable b0
      \<or> (w \<le> raw_changed_t b0 \<and> on_grid n (raw_changed_t b0))" by simp
  from bounce_in_window_silent [OF s1 rest win] have 1: "\<forall>e \<in> set es1. e = None" by simp
  from poll_all_tracks_raw [OF s1] have ev: "event_of b1 F = event_of b0 F"
    by (intro event_of_cong) simp_all
  from settled_at_most_one [OF s2 ss] have 2: "length (filter (\<lambda>e. e \<noteq> None) es2) \<le> 1"
    and 3: "\<forall>e \<in> set es2. e = None \<or> e = Some (event_of b1 F)"
    and 4: "(\<exists>e \<in> set es2. e \<noteq> None) \<longrightarrow> stable b2 = F" by blast+
  from 1 2 3 4 show ?thesis unfolding ev by blast
qed

text \<open>
  Claim C1. (1) After any sequence of polls since construction, a poll reports a
  debounced transition exactly when the time since the last poll at which the raw reading
  changed, as the code computes it (the double difference \<open>fsub\<close> of the two readings),
  is at least \<open>debounce_s\<close> and the raw level differs from the accepted stable level; the
  event is "pressed" or "released" according to the polarity. (2) When the clock
  readings are on one grid, as the readings of \<open>time.time()\<close> are, that time is the exact
  difference of the readings: the transition is reported exactly when the raw level has
  stayed unchanged for at least \<open>debounce_s\<close> seconds. (3) A misread \<open>v\<close>, polled any
  number of times inside a window shorter than \<open>debounce_s\<close>, followed by the poll that
  reads the previous raw level again, reports nothing and leaves the stable level as it
  was. (4) From a button at rest, polls that all fall inside a window shorter than
  \<open>debounce_s\<close> (whatever levels they read) report nothing, and the polls after them that
  all read the settled level \<open>F\<close> report at most one transition, which is the one to \<open>F\<close>.
\<close>

theorem debounce_reports_after_quiet_window:
  "(poll_all (DebouncedButton_init p g ah d initial t0) hs = (es, b) \<longrightarrow>
      fst (DebouncedButton_poll b now raw) =
        (if fsub now (last_raw_change t0 initial (hs @ [(now, raw)])) \<ge> d \<and> raw \<noteq> stable b
         then Some (event_of b raw) else None))
   \<and> (poll_all (DebouncedButton_init p g ah d initial t0) hs = (es, b)
        \<and> on_grid n t0 \<and> (\<forall>(t, x) \<in> set hs. on_grid n t) \<and> on_grid n now \<longrightarrow>
      fst (DebouncedButton_poll b now raw) =
        (if now - last_raw_change t0 initial (hs @ [(now, raw)]) \<ge> d \<and> raw \<noteq> stable b
         then Some (event_of b raw) else None))
   \<and> (ms \<noteq> [] \<and> v \<noteq> raw_last b0
        \<and> (\<forall>(t, x) \<in> set ms. x = v \<and> w \<le> t \<and> t < w + debounce_s b0 \<and> on_grid n t)
        \<and> poll_all b0 (ms @ [(t2, raw_last b0)]) = (es0, b0') \<longrightarrow>
      (\<forall>e \<in> set es0. e = None) \<and> stable b0' = stable b0 \<and> raw_last b0' = raw_last b0)
   \<and> (raw_last b0 = stable b0
        \<and> (\<forall>(t, x) \<in> set bs. w \<le> t \<and> t < w + debounce_s b0 \<and> on_grid n t)
        \<and> (\<forall>(t, x) \<in> set ss. x = F)
        \<and> poll_all b0 bs = (es1, b1) \<and> poll_all b1 ss = (es2, b2) \<longrightarrow>
      (\<forall>e \<in> set es1. e = None)
      \<and> length (filter (\<lambda>e. e \<noteq> None) es2) \<le> 1
      \<and> (\<forall>e \<in> set es2. e = None \<or> e = Some (event_of b0 F))
      \<and> ((\<exists>e \<in> set es2. e \<noteq> None) \<longrightarrow> stable b2 = F))"
  (is "(?A1 \<longrightarrow> ?C1) \<and> (?A0 \<longrightarrow> ?C0) \<and> (?A2 \<longrightarrow> ?C2) \<and> (?A3 \<longrightarrow> ?C3)")
proof -
  have 1: "?A1 \<longrightarrow> ?C1" by (rule impI) (erule poll_after_history)
  have 0: "?A0 \<longrightarrow> ?C0"
  proof
    assume a: ?A0
    show ?C0
      by (rule poll_after_history_exact [where hs = hs and es = es and n = n])
        (use a in blast)+
  qed
  have 2: "?A2 \<longrightarrow> ?C2"
  proof
    assume a: ?A2
    show ?C2
      by (rule misread_then_revert [where ms = ms and v = v and w = w and ?t2.0 = t2 and n = n])
        (use a in blast)+
  qed
  have 3: "?A3 \<longrightarrow> ?C3"
  proof
    assume a: ?A3
    show ?C3
      by (rule bounce_then_settle [where bs = bs and ss = ss and w = w and ?b1.0 = b1 and n = n])
        (use a in blast)+
  qed
  show ?thesis by (rule conjI [OF 1 conjI [OF 0 conjI [OF 2 3]]])
qed

theorem debounce_reports_after_quiet_window_witness:
  "fst (poll_all (DebouncedButton_init 29 \<lparr>HIGH = 1, LOW = 0\<rparr> True (1/16) 0 0) [(1/64, 1), (3/64, 1)]) = [None, None]
   \<and> fst (DebouncedButton_poll (snd (poll_all (DebouncedButton_init 29 \<lparr>HIGH = 1, LOW = 0\<rparr> True (1/16) 0 0) [(1/64, 1), (3/64, 1)])) (7/64) 1)
       = Some Pressed
   \<and> last_raw_change 0 0 [(1/64, 1), (3/64, 1), (7/64, 1)] = 1/64
   \<and> fsub (7/64) (1/64) = 3/32
   \<and> list_all (\<lambda>t. on_grid 6 t) [0, 1/64, 2/64, 3/64, 7/64]
   \<and> list_all (\<lambda>(t, x). x = 1 \<and> 1/64 \<le> t \<and> t < 1/64 + 1/16) [(1/64::real, 1::int), (2/64, 1)]
   \<and> fst (poll_all (DebouncedButton_init 29 \<lparr>HIGH = 1, LOW = 0\<rparr> True (1/16) 0 0) ([(1/64, 1), (2/64, 1)] @ [(4/64, 0)])) = [None, None, None]
   \<and> list_all (\<lambda>(t, x). 1/64 \<le> t \<and> t < 1/64 + 1/16)
          [(1/64::real, 1::int), (2/64, 0), (3/64, 1)]
   \<and> fst (poll_all (DebouncedButton_init 29 \<lparr>HIGH = 1, LOW = 0\<rparr> True (1/16) 0 0) [(1/64, 1), (2/64, 0), (3/64, 1)]) = [None, None, None]
   \<and> fst (poll_all (snd (poll_all (DebouncedButton_init 29 \<lparr>HIGH = 1, LOW = 0\<rparr> True (1/16) 0 0) [(1/64, 1), (2/64, 0), (3/64, 1)]))
          [(5/64, 1), (9/64, 1), (12/64, 1)]) = [None, Some Pressed, None]"
  using debounce_reports_after_quiet_window [where p = 29 and g = "\<lparr>HIGH = 1, LOW = 0\<rparr>" and ah = True and d = "1/16"
      and initial = 0 and ?t0.0 = 0 and hs = "[(1/64, 1), (3/64, 1)]"
      and es = "[None, None]" and n = 6
      and b = "snd (poll_all (DebouncedButton_init 29 \<lparr>HIGH = 1, LOW = 0\<rparr> True (1/16) 0 0) [(1/64, 1), (3/64, 1)])"
      and now = "7/64" and raw = 1
      and ms = "[(1/64, 1), (2/64, 1)]" and v = 1 and w = "1/64" and ?t2.0 = "4/64"
      and ?b0.0 = "DebouncedButton_init 29 \<lparr>HIGH = 1, LOW = 0\<rparr> True (1/16) 0 0"
      and ?es0.0 = "[None, None, None]"
      and b0' = "snd (poll_all (DebouncedButton_init 29 \<lparr>HIGH = 1, LOW = 0\<rparr> True (1/16) 0 0) ([(1/64, 1), (2/64, 1)] @ [(4/64, 0)]))"
      and bs = "[(1/64, 1), (2/64, 0), (3/64, 1)]"
      and ss = "[(5/64, 1), (9/64, 1), (12/64, 1)]" and F = 1
      and ?es1.0 = "[None, None, None]"
      and ?b1.0 = "snd (poll_all (DebouncedButton_init 29 \<lparr>HIGH = 1, LOW = 0\<rparr> True (1/16) 0 0) [(1/64, 1), (2/64, 0), (3/64, 1)])"
      and ?es2.0 = "[None, Some Pressed, None]"
      and ?b2.0 = "snd (poll_all (snd (poll_all (DebouncedButton_init 29 \<lparr>HIGH = 1, LOW = 0\<rparr> True (1/16) 0 0) [(1/64, 1), (2/64, 0), (3/64, 1)]))
          [(5/64, 1), (9/64, 1), (12/64, 1)])"]
  by (simp add: DebouncedButton_poll_def track_raw_def DebouncedButton_init_def Let_def is_pressed_level_def
      event_of_def fsub_exact [of 6] on_grid_def)

section \<open>Properties of the long-press detector\<close>

lemma track_raw_fields:
  "raw_last (track_raw d now raw) = raw"
  "raw_changed_t (track_raw d now raw) = (if raw \<noteq> raw_last d then now else raw_changed_t d)"
  "stable (track_raw d now raw) = stable d"
  "gpio (track_raw d now raw) = gpio d"
  "active_high (track_raw d now raw) = active_high d"
  "debounce_s (track_raw d now raw) = debounce_s d"
  by (simp_all add: track_raw_def)

lemma track_raw_lp_fields:
  "long_press_s (track_raw d now raw) = long_press_s d"
  "press_start_t (track_raw d now raw) = press_start_t d"
  "fired (track_raw d now raw) = fired d"
  by (simp_all add: track_raw_def)

lemma is_pressed_level_cong:
  "gpio b' = gpio b \<Longrightarrow> active_high b' = active_high b \<Longrightarrow>
     is_pressed_level b' x = is_pressed_level b x"
  by (simp add: is_pressed_level_def)

lemma update_stable_fields:
  "gpio (update_stable d now raw) = gpio d"
  "active_high (update_stable d now raw) = active_high d"
  "debounce_s (update_stable d now raw) = debounce_s d"
  "long_press_s (update_stable d now raw) = long_press_s d"
  "raw_last (update_stable d now raw) = raw_last d"
  "raw_changed_t (update_stable d now raw) = raw_changed_t d"
  "stable (update_stable d now raw) =
     (if fsub now (raw_changed_t d) \<ge> debounce_s d \<and> raw \<noteq> stable d then raw else stable d)"
  by (simp_all add: update_stable_def Let_def)

lemma update_stable_press_start:
  "press_start_t (update_stable d now raw) =
     (if fsub now (raw_changed_t d) \<ge> debounce_s d \<and> raw \<noteq> stable d
      then (if is_pressed_level d raw \<and> \<not> is_pressed_level d (stable d) then Some now
            else if \<not> is_pressed_level d raw \<and> is_pressed_level d (stable d) then None
            else press_start_t d)
      else press_start_t d)"
  by (simp add: update_stable_def Let_def is_pressed_level_def)

lemma update_stable_fired:
  "fired (update_stable d now raw) =
     (if fsub now (raw_changed_t d) \<ge> debounce_s d \<and> raw \<noteq> stable d
      then (if is_pressed_level d raw \<and> \<not> is_pressed_level d (stable d) then False
            else if \<not> is_pressed_level d raw \<and> is_pressed_level d (stable d) then False
            else fired d)
      else fired d)"
  by (simp add: update_stable_def Let_def is_pressed_level_def)

lemma held_track_raw: "held (track_raw d now raw) = held d"
  by (simp add: held_def track_raw_def is_pressed_level_def)

lemma lp_poll_fields:
  assumes "LongPressDetector_poll d now raw en = (r, d')"
  defines "d2 \<equiv> update_stable (track_raw d now raw) now raw"
  shows "r = (en \<and> (\<exists>since. press_start_t d2 = Some since \<and> \<not> fired d2 \<and> held d2
                        \<and> fsub now since \<ge> long_press_s d))"
    and "stable d' = stable d2"
    and "gpio d' = gpio d" and "active_high d' = active_high d"
    and "long_press_s d' = long_press_s d" and "debounce_s d' = debounce_s d"
    and "press_start_t d' = (if en then press_start_t d2 else None)"
    and "fired d' = (if \<not> en then False else if r then True else fired d2)"
proof -
  have cfg: "long_press_s d2 = long_press_s d" "gpio d2 = gpio d" "active_high d2 = active_high d"
    "debounce_s d2 = debounce_s d"
    by (simp_all add: d2_def update_stable_fields track_raw_fields track_raw_lp_fields)
  from assms(1) have p: "(if \<not> en then (False, d2\<lparr>press_start_t := None, fired := False\<rparr>)
         else (case press_start_t d2 of
                 None \<Rightarrow> (False, d2)
               | Some since \<Rightarrow>
                   if \<not> fired d2 \<and> is_pressed_level d2 (stable d2)
                      \<and> fsub now since \<ge> long_press_s d2
                   then (True, d2\<lparr>fired := True\<rparr>)
                   else (False, d2))) = (r, d')"
    unfolding LongPressDetector_poll_def Let_def d2_def [symmetric] .
  show "r = (en \<and> (\<exists>since. press_start_t d2 = Some since \<and> \<not> fired d2 \<and> held d2
                        \<and> fsub now since \<ge> long_press_s d))"
    using p cfg by (cases en; cases "press_start_t d2") (auto simp: held_def split: if_splits)
  show "stable d' = stable d2"
    using p cfg by (cases en; cases "press_start_t d2") (auto simp: held_def split: if_splits)
  show "gpio d' = gpio d" 
    using p cfg by (cases en; cases "press_start_t d2") (auto split: if_splits)
  show "active_high d' = active_high d" 
    using p cfg by (cases en; cases "press_start_t d2") (auto split: if_splits)
  show "long_press_s d' = long_press_s d" 
    using p cfg by (cases en; cases "press_start_t d2") (auto split: if_splits)
  show "debounce_s d' = debounce_s d" 
    using p cfg by (cases en; cases "press_start_t d2") (auto split: if_splits)
  show "press_start_t d' = (if en then press_start_t d2 else None)"
    using p cfg by (cases en; cases "press_start_t d2") (auto simp: held_def split: if_splits)
  show "fired d' = (if \<not> en then False else if r then True else fired d2)"
    using p cfg by (cases en; cases "press_start_t d2") (auto simp: held_def split: if_splits)
qed

lemma is_pressed_level_track_raw [simp]:
  "is_pressed_level (track_raw d now raw) x = is_pressed_level d x"
  by (simp add: is_pressed_level_def track_raw_def)

lemma update_stable_view:
  fixes d :: long_press_detector and now :: real and raw :: int
  defines "d1 \<equiv> track_raw d now raw"
  defines "d2 \<equiv> update_stable d1 now raw"
  defines "acc \<equiv> fsub now (raw_changed_t d1) \<ge> debounce_s d \<and> raw \<noteq> stable d"
  shows "held d2 = (if acc then is_pressed_level d raw else held d)"
    and "press_start_t d2 =
          (if acc \<and> is_pressed_level d raw \<and> \<not> held d then Some now
           else if acc \<and> \<not> is_pressed_level d raw \<and> held d then None
           else press_start_t d)"
    and "fired d2 =
          (if acc \<and> (is_pressed_level d raw \<noteq> held d) then False else fired d)"
    and "acc \<Longrightarrow> \<not> (is_pressed_level d raw \<and> held d)"
proof -
  have f: "stable d1 = stable d" "debounce_s d1 = debounce_s d" "press_start_t d1 = press_start_t d"
    "fired d1 = fired d" "gpio d1 = gpio d" "active_high d1 = active_high d"
    by (simp_all add: d1_def track_raw_fields track_raw_lp_fields)
  have p: "is_pressed_level (update_stable d1 now raw) x = is_pressed_level d x" for x
    by (simp add: is_pressed_level_def update_stable_fields f)
  have p1: "is_pressed_level d1 x = is_pressed_level d x" for x
    by (simp add: d1_def)
  show "held d2 = (if acc then is_pressed_level d raw else held d)"
    by (simp add: held_def p d2_def update_stable_fields f acc_def)
  show "press_start_t d2 =
          (if acc \<and> is_pressed_level d raw \<and> \<not> held d then Some now
           else if acc \<and> \<not> is_pressed_level d raw \<and> held d then None
           else press_start_t d)"
    by (simp add: d2_def update_stable_press_start f p1 acc_def held_def)
  show "fired d2 =
          (if acc \<and> (is_pressed_level d raw \<noteq> held d) then False else fired d)"
    by (auto simp add: d2_def update_stable_fired f p1 acc_def held_def)
  show "acc \<Longrightarrow> \<not> (is_pressed_level d raw \<and> held d)"
    by (auto simp: acc_def held_def is_pressed_level_def)
qed

lemma lp_step:
  assumes "LongPressDetector_poll d now raw en = (r, d')"
  shows fire: "r \<Longrightarrow> en \<and> held d' \<and> fired d'
                 \<and> (\<exists>since. press_start_t d' = Some since \<and> fsub now since \<ge> long_press_s d)"
    and spent: "held d \<Longrightarrow> fired d \<or> press_start_t d = None \<Longrightarrow>
                 \<not> r \<and> ((debounced_edge d d' = Some Released \<and> \<not> held d')
                        \<or> (debounced_edge d d' \<noteq> Some Released \<and> held d'
                            \<and> (fired d' \<or> press_start_t d' = None)))"
    and up: "\<not> held d \<Longrightarrow> debounced_edge d d' = Some Pressed \<or> (\<not> r \<and> \<not> held d')"
    and disabled: "\<not> en \<Longrightarrow> \<not> r \<and> press_start_t d' = None \<and> \<not> fired d'"
    and armed: "press_start_t d' = Some ps \<Longrightarrow>
                 en \<and> ((debounced_edge d d' = Some Pressed \<and> ps = now)
                       \<or> (debounced_edge d d' = None \<and> press_start_t d = Some ps))"
proof -
  define d2 where "d2 = update_stable (track_raw d now raw) now raw"
  define acc where "acc \<longleftrightarrow> fsub now (raw_changed_t (track_raw d now raw)) \<ge> debounce_s d \<and> raw \<noteq> stable d"
  note v = update_stable_view [of d now raw, folded d2_def acc_def]
  note f = lp_poll_fields [OF assms, folded d2_def]
  have h: "held d' = held d2"
    by (simp add: held_def f(2) is_pressed_level_def f(3,4) d2_def update_stable_fields
        track_raw_fields)
  show "r \<Longrightarrow> en \<and> held d' \<and> fired d'
                 \<and> (\<exists>since. press_start_t d' = Some since \<and> fsub now since \<ge> long_press_s d)"
    using f(1,7,8) h by auto
  show "held d \<Longrightarrow> fired d \<or> press_start_t d = None \<Longrightarrow>
                 \<not> r \<and> ((debounced_edge d d' = Some Released \<and> \<not> held d')
                        \<or> (debounced_edge d d' \<noteq> Some Released \<and> held d'
                            \<and> (fired d' \<or> press_start_t d' = None)))"
    using f(1,7,8) h v by (cases acc; cases en) (auto simp: debounced_edge_def)
  show "\<not> held d \<Longrightarrow> debounced_edge d d' = Some Pressed \<or> (\<not> r \<and> \<not> held d')"
    using f(1,7,8) h v by (cases acc) (auto simp: debounced_edge_def)
  show "\<not> en \<Longrightarrow> \<not> r \<and> press_start_t d' = None \<and> \<not> fired d'"
    using f(1,7,8) by auto
  show "press_start_t d' = Some ps \<Longrightarrow>
                 en \<and> ((debounced_edge d d' = Some Pressed \<and> ps = now)
                       \<or> (debounced_edge d d' = None \<and> press_start_t d = Some ps))"
    using f(7) h v by (cases acc; cases en) (auto simp: debounced_edge_def split: if_splits)
qed

lemma lp_poll_all_Cons:
  obtains r d' where "LongPressDetector_poll d now raw en = (r, d')"
    "lp_poll_all d ((now, raw, en) # ps) = (r, debounced_edge d d') # lp_poll_all d' ps"
  by (cases "LongPressDetector_poll d now raw en") simp

lemma length_lp_poll_all [simp]: "length (lp_poll_all d xs) = length xs"
  by (induction xs arbitrary: d) (auto split: prod.splits)

lemma press_edge_after_release:
  "\<not> held d \<Longrightarrow> j < length xs \<Longrightarrow> fst (lp_poll_all d xs ! j) \<Longrightarrow>
     \<exists>l\<le>j. snd (lp_poll_all d xs ! l) = Some Pressed"
proof (induction xs arbitrary: d j)
  case Nil
  then show ?case by simp
next
  case (Cons x xs)
  obtain now raw en where x: "x = (now, raw, en)" by (cases x)
  obtain r d' where s: "LongPressDetector_poll d now raw en = (r, d')"
    and o: "lp_poll_all d ((now, raw, en) # xs) = (r, debounced_edge d d') # lp_poll_all d' xs"
    by (rule lp_poll_all_Cons)
  from lp_step(3) [OF s Cons.prems(1)]
  consider "debounced_edge d d' = Some Pressed" | "\<not> r" "\<not> held d'" by blast
  then show ?case
  proof cases
    case 1
    then have "snd (lp_poll_all d (x # xs) ! 0) = Some Pressed" by (simp add: x s)
    then show ?thesis by blast
  next
    case 2
    show ?thesis
    proof (cases j)
      case 0
      with Cons.prems(3) 2 show ?thesis by (simp add: x s)
    next
      case (Suc j')
      with Cons.prems have "j' < length xs" "fst (lp_poll_all d' xs ! j')" by (simp_all add: x s)
      from Cons.IH [OF 2(2) this] obtain l where "l \<le> j'"
        "snd (lp_poll_all d' xs ! l) = Some Pressed" by blast
      then have "Suc l \<le> j" "snd (lp_poll_all d (x # xs) ! Suc l) = Some Pressed"
        by (simp_all add: Suc x s)
      then show ?thesis by blast
    qed
  qed
qed

lemma release_then_press_after_spent:
  "held d \<Longrightarrow> fired d \<or> press_start_t d = None \<Longrightarrow> j < length xs \<Longrightarrow>
   fst (lp_poll_all d xs ! j) \<Longrightarrow>
     \<exists>k l. k < l \<and> l \<le> j \<and> snd (lp_poll_all d xs ! k) = Some Released
          \<and> snd (lp_poll_all d xs ! l) = Some Pressed"
proof (induction xs arbitrary: d j)
  case Nil
  then show ?case by simp
next
  case (Cons x xs)
  obtain now raw en where x: "x = (now, raw, en)" by (cases x)
  obtain r d' where s: "LongPressDetector_poll d now raw en = (r, d')"
    and o: "lp_poll_all d ((now, raw, en) # xs) = (r, debounced_edge d d') # lp_poll_all d' xs"
    by (rule lp_poll_all_Cons)
  note sp = lp_step(2) [OF s Cons.prems(1,2)]
  from sp have nr: "\<not> r" by simp
  from sp have alt: "(debounced_edge d d' = Some Released \<and> \<not> held d')
          \<or> (held d' \<and> (fired d' \<or> press_start_t d' = None))" by auto
  from nr Cons.prems(4) obtain j' where j: "j = Suc j'" by (cases j) (simp_all add: x s)
  with Cons.prems have j': "j' < length xs" "fst (lp_poll_all d' xs ! j')"
    by (simp_all add: x s)
  from alt show ?case
  proof
    assume a: "debounced_edge d d' = Some Released \<and> \<not> held d'"
    then have nh: "\<not> held d'" by simp
    from press_edge_after_release [OF nh j'] obtain l where "l \<le> j'"
      "snd (lp_poll_all d' xs ! l) = Some Pressed" by blast
    with a have "0 < Suc l" "Suc l \<le> j" "snd (lp_poll_all d (x # xs) ! 0) = Some Released"
      "snd (lp_poll_all d (x # xs) ! Suc l) = Some Pressed"
      by (simp_all add: j x s)
    then show ?thesis by blast
  next
    assume a: "held d' \<and> (fired d' \<or> press_start_t d' = None)"
    then have h: "held d'" "fired d' \<or> press_start_t d' = None" by simp_all
    from Cons.IH [OF h j'] obtain k l where "k < l" "l \<le> j'"
      "snd (lp_poll_all d' xs ! k) = Some Released" "snd (lp_poll_all d' xs ! l) = Some Pressed"
      by blast
    then have "Suc k < Suc l" "Suc l \<le> j"
      "snd (lp_poll_all d (x # xs) ! Suc k) = Some Released"
      "snd (lp_poll_all d (x # xs) ! Suc l) = Some Pressed"
      by (simp_all add: j x s)
    then show ?thesis by blast
  qed
qed

lemma no_second_fire_without_repress:
  "i < j \<Longrightarrow> j < length xs \<Longrightarrow> fst (lp_poll_all d xs ! i) \<Longrightarrow> fst (lp_poll_all d xs ! j) \<Longrightarrow>
     \<exists>k l. i < k \<and> k < l \<and> l \<le> j \<and> snd (lp_poll_all d xs ! k) = Some Released
          \<and> snd (lp_poll_all d xs ! l) = Some Pressed"
proof (induction xs arbitrary: d i j)
  case Nil
  then show ?case by simp
next
  case (Cons x xs)
  obtain now raw en where x: "x = (now, raw, en)" by (cases x)
  obtain r d' where s: "LongPressDetector_poll d now raw en = (r, d')"
    and o: "lp_poll_all d ((now, raw, en) # xs) = (r, debounced_edge d d') # lp_poll_all d' xs"
    by (rule lp_poll_all_Cons)
  from Cons.prems(1) obtain j' where j: "j = Suc j'" by (cases j) simp_all
  with Cons.prems have j': "j' < length xs" "fst (lp_poll_all d' xs ! j')"
    by (simp_all add: x s)
  show ?case
  proof (cases i)
    case 0
    with Cons.prems(3) have r by (simp add: x s)
    from lp_step(1) [OF s this] have "held d'" "fired d' \<or> press_start_t d' = None" by simp_all
    from release_then_press_after_spent [OF this j'] obtain k l where "k < l" "l \<le> j'"
      "snd (lp_poll_all d' xs ! k) = Some Released" "snd (lp_poll_all d' xs ! l) = Some Pressed"
      by blast
    then have "i < Suc k" "Suc k < Suc l" "Suc l \<le> j"
      "snd (lp_poll_all d (x # xs) ! Suc k) = Some Released"
      "snd (lp_poll_all d (x # xs) ! Suc l) = Some Pressed"
      by (simp_all add: 0 j x s)
    then show ?thesis by blast
  next
    case (Suc i')
    with Cons.prems j have "i' < j'" "fst (lp_poll_all d' xs ! i')" by (simp_all add: x s)
    from Cons.IH [OF this(1) j'(1) this(2) j'(2)] obtain k l where "i' < k" "k < l" "l \<le> j'"
      "snd (lp_poll_all d' xs ! k) = Some Released" "snd (lp_poll_all d' xs ! l) = Some Pressed"
      by blast
    then have "i < Suc k" "Suc k < Suc l" "Suc l \<le> j"
      "snd (lp_poll_all d (x # xs) ! Suc k) = Some Released"
      "snd (lp_poll_all d (x # xs) ! Suc l) = Some Pressed"
      by (simp_all add: Suc j x s)
    then show ?thesis by blast
  qed
qed

lemma all_upto_Cons:
  "P y \<Longrightarrow> \<forall>m\<le>j. P (ys ! m) \<Longrightarrow> \<forall>m\<le>Suc j. P ((y # ys) ! m)"
  by (auto simp: nth_Cons split: nat.splits)

lemma all_after0_Cons:
  "\<forall>m\<le>j. P (ys ! m) \<Longrightarrow> \<forall>m. 0 < m \<and> m \<le> Suc j \<longrightarrow> P ((y # ys) ! m)"
  by (auto simp: nth_Cons split: nat.splits)

lemma all_from_Cons:
  "\<forall>m. l \<le> m \<and> m \<le> j \<longrightarrow> P (ys ! m) \<Longrightarrow>
     \<forall>m. Suc l \<le> m \<and> m \<le> Suc j \<longrightarrow> P ((y # ys) ! m)"
  by (auto simp: nth_Cons split: nat.splits)

lemma all_after_Cons:
  "\<forall>m. l < m \<and> m \<le> j \<longrightarrow> P (ys ! m) \<Longrightarrow>
     \<forall>m. Suc l < m \<and> m \<le> Suc j \<longrightarrow> P ((y # ys) ! m)"
  by (auto simp: nth_Cons split: nat.splits)

lemma fire_origin:
  "j < length xs \<Longrightarrow> fst (lp_poll_all d xs ! j) \<Longrightarrow>
     (\<exists>ps. press_start_t d = Some ps \<and> fsub (fst (xs ! j)) ps \<ge> long_press_s d
          \<and> (\<forall>m\<le>j. snd (snd (xs ! m))) \<and> (\<forall>m\<le>j. snd (lp_poll_all d xs ! m) = None))
   \<or> (\<exists>l\<le>j. snd (lp_poll_all d xs ! l) = Some Pressed
          \<and> fsub (fst (xs ! j)) (fst (xs ! l)) \<ge> long_press_s d
          \<and> (\<forall>m. l \<le> m \<and> m \<le> j \<longrightarrow> snd (snd (xs ! m)))
          \<and> (\<forall>m. l < m \<and> m \<le> j \<longrightarrow> snd (lp_poll_all d xs ! m) = None))"
proof (induction xs arbitrary: d j)
  case Nil
  then show ?case by simp
next
  case (Cons x xs)
  obtain now raw en where x: "x = (now, raw, en)" by (cases x)
  obtain r d' where s: "LongPressDetector_poll d now raw en = (r, d')"
    and o: "lp_poll_all d ((now, raw, en) # xs) = (r, debounced_edge d d') # lp_poll_all d' xs"
    by (rule lp_poll_all_Cons)
  have ox: "lp_poll_all d (x # xs) = (r, debounced_edge d d') # lp_poll_all d' xs"
    using o x by simp
  have fx: "fst x = now" "snd (snd x) = en" by (simp_all add: x)
  have L: "long_press_s d' = long_press_s d" by (rule lp_poll_fields(5) [OF s])
  show ?case
  proof (cases j)
    case 0
    with Cons.prems(2) have r by (simp add: ox)
    from lp_step(1) [OF s this] obtain since where en: en
      and ps: "press_start_t d' = Some since" and ge: "fsub now since \<ge> long_press_s d" by blast
    from lp_step(5) [OF s ps] consider
      "debounced_edge d d' = Some Pressed" "since = now"
      | "debounced_edge d d' = None" "press_start_t d = Some since" by auto
    then show ?thesis
    proof cases
      case 1
      with ge en have "snd (lp_poll_all d (x # xs) ! 0) = Some Pressed"
        "fsub (fst ((x # xs) ! j)) (fst ((x # xs) ! 0)) \<ge> long_press_s d"
        "\<forall>m. 0 \<le> m \<and> m \<le> j \<longrightarrow> snd (snd ((x # xs) ! m))"
        "\<forall>m. 0 < m \<and> m \<le> j \<longrightarrow> snd (lp_poll_all d (x # xs) ! m) = None"
        by (auto simp: ox fx 0)
      then show ?thesis by blast
    next
      case 2
      with ge en have "press_start_t d = Some since"
        "fsub (fst ((x # xs) ! j)) since \<ge> long_press_s d"
        "\<forall>m\<le>j. snd (snd ((x # xs) ! m))"
        "\<forall>m\<le>j. snd (lp_poll_all d (x # xs) ! m) = None"
        by (auto simp: ox fx 0)
      then show ?thesis by blast
    qed
  next
    case (Suc j')
    with Cons.prems have j': "j' < length xs" "fst (lp_poll_all d' xs ! j')"
      by (simp_all add: ox)
    from Cons.IH [OF j'] show ?thesis
    proof (elim disjE exE conjE)
      fix ps
      assume ps: "press_start_t d' = Some ps" and ge: "long_press_s d' \<le> fsub (fst (xs ! j')) ps"
        and ens: "\<forall>m\<le>j'. snd (snd (xs ! m))"
        and eds: "\<forall>m\<le>j'. snd (lp_poll_all d' xs ! m) = None"
      from lp_step(5) [OF s ps] have en: en and alt:
        "(debounced_edge d d' = Some Pressed \<and> ps = now)
         \<or> (debounced_edge d d' = None \<and> press_start_t d = Some ps)" by simp_all
      have en0: "snd (snd x)" using en fx by simp
      note ens' = all_upto_Cons [where P = "\<lambda>v. snd (snd v)", OF en0 ens]
      from alt show ?thesis
      proof
        assume a: "debounced_edge d d' = Some Pressed \<and> ps = now"
        then have "snd (lp_poll_all d (x # xs) ! 0) = Some Pressed"
          "fsub (fst ((x # xs) ! j)) (fst ((x # xs) ! 0)) \<ge> long_press_s d"
          using ge L by (simp_all add: ox fx Suc)
        moreover have "\<forall>m. 0 \<le> m \<and> m \<le> j \<longrightarrow> snd (snd ((x # xs) ! m))"
          using ens' by (simp add: Suc)
        moreover have "\<forall>m. 0 < m \<and> m \<le> j \<longrightarrow> snd (lp_poll_all d (x # xs) ! m) = None"
          using all_after0_Cons [where P = "\<lambda>v. snd v = None", OF eds] by (simp add: ox Suc)
        ultimately show ?thesis by blast
      next
        assume a: "debounced_edge d d' = None \<and> press_start_t d = Some ps"
        then have e0: "snd (r, debounced_edge d d') = None" by simp
        from a have "press_start_t d = Some ps"
          "fsub (fst ((x # xs) ! j)) ps \<ge> long_press_s d"
          using ge L by (simp_all add: Suc)
        moreover have "\<forall>m\<le>j. snd (snd ((x # xs) ! m))"
          using ens' by (simp add: Suc)
        moreover have "\<forall>m\<le>j. snd (lp_poll_all d (x # xs) ! m) = None"
          using all_upto_Cons [where P = "\<lambda>v. snd v = None", OF e0 eds] by (simp add: ox Suc)
        ultimately show ?thesis by blast
      qed
    next
      fix l
      assume l: "l \<le> j'" and pe: "snd (lp_poll_all d' xs ! l) = Some Pressed"
        and ge: "long_press_s d' \<le> fsub (fst (xs ! j')) (fst (xs ! l))"
        and ens: "\<forall>m. l \<le> m \<and> m \<le> j' \<longrightarrow> snd (snd (xs ! m))"
        and eds: "\<forall>m. l < m \<and> m \<le> j' \<longrightarrow> snd (lp_poll_all d' xs ! m) = None"
      have "Suc l \<le> j" "snd (lp_poll_all d (x # xs) ! Suc l) = Some Pressed"
        "fsub (fst ((x # xs) ! j)) (fst ((x # xs) ! Suc l)) \<ge> long_press_s d"
        using l pe ge L by (simp_all add: ox Suc)
      moreover have "\<forall>m. Suc l \<le> m \<and> m \<le> j \<longrightarrow> snd (snd ((x # xs) ! m))"
        using all_from_Cons [where P = "\<lambda>v. snd (snd v)", OF ens] by (simp add: Suc)
      moreover have "\<forall>m. Suc l < m \<and> m \<le> j \<longrightarrow> snd (lp_poll_all d (x # xs) ! m) = None"
        using all_after_Cons [where P = "\<lambda>v. snd v = None", OF eds] by (simp add: ox Suc)
      ultimately show ?thesis by blast
    qed
  qed
qed

lemma fresh_hold_after_disable:
  "k < j \<Longrightarrow> j < length xs \<Longrightarrow> \<not> snd (snd (xs ! k)) \<Longrightarrow> fst (lp_poll_all d xs ! j) \<Longrightarrow>
     \<exists>l. k < l \<and> l \<le> j \<and> snd (lp_poll_all d xs ! l) = Some Pressed
          \<and> fsub (fst (xs ! j)) (fst (xs ! l)) \<ge> long_press_s d
          \<and> (\<forall>m. l \<le> m \<and> m \<le> j \<longrightarrow> snd (snd (xs ! m)))
          \<and> (\<forall>m. l < m \<and> m \<le> j \<longrightarrow> snd (lp_poll_all d xs ! m) = None)"
proof (induction xs arbitrary: d k j)
  case Nil
  then show ?case by simp
next
  case (Cons x xs)
  obtain now raw en where x: "x = (now, raw, en)" by (cases x)
  obtain r d' where s: "LongPressDetector_poll d now raw en = (r, d')"
    and o: "lp_poll_all d ((now, raw, en) # xs) = (r, debounced_edge d d') # lp_poll_all d' xs"
    by (rule lp_poll_all_Cons)
  have ox: "lp_poll_all d (x # xs) = (r, debounced_edge d d') # lp_poll_all d' xs"
    using o x by simp
  have fx: "fst x = now" "snd (snd x) = en" by (simp_all add: x)
  have L: "long_press_s d' = long_press_s d" by (rule lp_poll_fields(5) [OF s])
  from Cons.prems(1) obtain j' where j: "j = Suc j'" by (cases j) simp_all
  with Cons.prems have j': "j' < length xs" "fst (lp_poll_all d' xs ! j')"
    by (simp_all add: ox)
  have shift: "\<exists>l. k < l \<and> l \<le> j \<and> snd (lp_poll_all d (x # xs) ! l) = Some Pressed
          \<and> fsub (fst ((x # xs) ! j)) (fst ((x # xs) ! l)) \<ge> long_press_s d
          \<and> (\<forall>m. l \<le> m \<and> m \<le> j \<longrightarrow> snd (snd ((x # xs) ! m)))
          \<and> (\<forall>m. l < m \<and> m \<le> j \<longrightarrow> snd (lp_poll_all d (x # xs) ! m) = None)"
    if l: "k < Suc l" "l \<le> j'" and pe: "snd (lp_poll_all d' xs ! l) = Some Pressed"
      and ge: "long_press_s d' \<le> fsub (fst (xs ! j')) (fst (xs ! l))"
      and ens: "\<forall>m. l \<le> m \<and> m \<le> j' \<longrightarrow> snd (snd (xs ! m))"
      and eds: "\<forall>m. l < m \<and> m \<le> j' \<longrightarrow> snd (lp_poll_all d' xs ! m) = None" for l
  proof -
    have "k < Suc l" "Suc l \<le> j" "snd (lp_poll_all d (x # xs) ! Suc l) = Some Pressed"
      "fsub (fst ((x # xs) ! j)) (fst ((x # xs) ! Suc l)) \<ge> long_press_s d"
      using l pe ge L Cons.prems(1) by (simp_all add: ox j)
    moreover have "\<forall>m. Suc l \<le> m \<and> m \<le> j \<longrightarrow> snd (snd ((x # xs) ! m))"
      using all_from_Cons [where P = "\<lambda>v. snd (snd v)", OF ens] by (simp add: j)
    moreover have "\<forall>m. Suc l < m \<and> m \<le> j \<longrightarrow> snd (lp_poll_all d (x # xs) ! m) = None"
      using all_after_Cons [where P = "\<lambda>v. snd v = None", OF eds] by (simp add: ox j)
    ultimately show ?thesis by blast
  qed
  show ?case
  proof (cases k)
    case 0
    with Cons.prems(3) have "\<not> en" by (simp add: fx)
    from lp_step(4) [OF s this] have none: "press_start_t d' = None" by simp
    from fire_origin [OF j'] none obtain l where "l \<le> j'"
      "snd (lp_poll_all d' xs ! l) = Some Pressed"
      "long_press_s d' \<le> fsub (fst (xs ! j')) (fst (xs ! l))"
      "\<forall>m. l \<le> m \<and> m \<le> j' \<longrightarrow> snd (snd (xs ! m))"
      "\<forall>m. l < m \<and> m \<le> j' \<longrightarrow> snd (lp_poll_all d' xs ! m) = None"
      by auto
    with shift [of l] 0 show ?thesis by simp
  next
    case (Suc k')
    with Cons.prems j have "k' < j'" "\<not> snd (snd (xs ! k'))" by simp_all
    from Cons.IH [OF this(1) j'(1) this(2) j'(2)] obtain l where "k' < l" "l \<le> j'"
      "snd (lp_poll_all d' xs ! l) = Some Pressed"
      "long_press_s d' \<le> fsub (fst (xs ! j')) (fst (xs ! l))"
      "\<forall>m. l \<le> m \<and> m \<le> j' \<longrightarrow> snd (snd (xs ! m))"
      "\<forall>m. l < m \<and> m \<le> j' \<longrightarrow> snd (lp_poll_all d' xs ! m) = None"
      by blast
    with shift [of l] Suc show ?thesis by simp
  qed
qed

lemma poll_disabled:
  "fst (LongPressDetector_poll d now raw False) = False
   \<and> press_start_t (snd (LongPressDetector_poll d now raw False)) = None
   \<and> fired (snd (LongPressDetector_poll d now raw False)) = False"
proof -
  obtain r d' where s: "LongPressDetector_poll d now raw False = (r, d')"
    by (cases "LongPressDetector_poll d now raw False")
  from lp_step(4) [OF s] show ?thesis by (simp add: s)
qed

text \<open>
  The hold test compares the double difference: a hold that began at \<open>1/4 + 1 / 2 ^ 54\<close>
  fires at the poll at \<open>9/4\<close>, less than \<open>long_press_s = 2\<close> seconds later.
\<close>

lemma rounded_hold_fires:
  "fst (LongPressDetector_poll
         ((LongPressDetector_init 7 \<lparr>HIGH = 1, LOW = 0\<rparr> 2 False (1/16) 0 0)
            \<lparr>press_start_t := Some (1/4 + 1 / 2 ^ 54)\<rparr>) (9/4) 0 True) = True
   \<and> 9/4 - (1/4 + 1 / 2 ^ 54) < (2::real)"
proof -
  have "fst (LongPressDetector_poll
         ((LongPressDetector_init 7 \<lparr>HIGH = 1, LOW = 0\<rparr> 2 False (1/16) 0 0)
            \<lparr>press_start_t := Some (1/4 + 1 / 2 ^ 54)\<rparr>) (9/4) 0 True) = True"
    using fsub_rounds_up_to_two
    by (simp add: LongPressDetector_poll_def update_stable_def track_raw_def Let_def
        is_pressed_level_def LongPressDetector_init_def del: power_numeral)
  then show ?thesis by simp
qed

lemma fresh_hold_after_disable_exact:
  assumes "k < j" "j < length xs" "\<not> snd (snd (xs ! k))" "fst (lp_poll_all d xs ! j)"
    and grid: "\<forall>x \<in> set xs. on_grid n (fst x)"
  shows "\<exists>l. k < l \<and> l \<le> j \<and> snd (lp_poll_all d xs ! l) = Some Pressed
          \<and> fst (xs ! j) - fst (xs ! l) \<ge> long_press_s d
          \<and> (\<forall>m. l \<le> m \<and> m \<le> j \<longrightarrow> snd (snd (xs ! m)))
          \<and> (\<forall>m. l < m \<and> m \<le> j \<longrightarrow> snd (lp_poll_all d xs ! m) = None)"
proof -
  from fresh_hold_after_disable [OF assms(1-4)] obtain l where l: "k < l" "l \<le> j"
      "snd (lp_poll_all d xs ! l) = Some Pressed"
      "fsub (fst (xs ! j)) (fst (xs ! l)) \<ge> long_press_s d"
      "\<forall>m. l \<le> m \<and> m \<le> j \<longrightarrow> snd (snd (xs ! m))"
      "\<forall>m. l < m \<and> m \<le> j \<longrightarrow> snd (lp_poll_all d xs ! m) = None" by blast
  from l(2) assms(2) have "xs ! j \<in> set xs" "xs ! l \<in> set xs" by simp_all
  with grid have "on_grid n (fst (xs ! j))" "on_grid n (fst (xs ! l))" by blast+
  from fsub_exact [OF this] l(4) have "fst (xs ! j) - fst (xs ! l) \<ge> long_press_s d" by simp
  with l(1,2,3,5,6) show ?thesis by blast
qed

text \<open>
  Claim C2. For every sequence of polls \<open>xs\<close> (each with its clock reading, raw level and
  \<open>enabled\<close> flag) from any detector state: (1) if poll \<open>i\<close> and a later poll \<open>j\<close> both
  return true, then some poll \<open>k\<close> after \<open>i\<close> saw a debounced release and some poll \<open>l\<close>
  after \<open>k\<close>, not later than \<open>j\<close>, saw a debounced press; (2) a poll with
  \<open>enabled = False\<close> returns false and leaves no press start time and no fired flag;
  (3) if poll \<open>k\<close> was disabled and a later poll \<open>j\<close> returns true, then a debounced
  press was seen at some poll \<open>l\<close> after \<open>k\<close>, the hold time from poll \<open>l\<close> to poll \<open>j\<close>
  as the code computes it (the double difference \<open>fsub\<close> of the two readings) is at
  least \<open>long_press_s\<close>, every poll from \<open>l\<close> to \<open>j\<close> was enabled and no debounced edge
  lies between them: the hold that fires started afresh after the disabled poll;
  (4) when the clock readings are on one grid, as the readings of \<open>time.time()\<close> are,
  poll \<open>l\<close> is at least \<open>long_press_s\<close> seconds before poll \<open>j\<close>.
\<close>

theorem long_press_fires_once_per_fresh_hold:
  "(i < j \<and> j < length xs \<and> fst (lp_poll_all d xs ! i) \<and> fst (lp_poll_all d xs ! j) \<longrightarrow>
      (\<exists>k l. i < k \<and> k < l \<and> l \<le> j \<and> snd (lp_poll_all d xs ! k) = Some Released
            \<and> snd (lp_poll_all d xs ! l) = Some Pressed))
   \<and> (fst (LongPressDetector_poll d now raw False) = False
      \<and> press_start_t (snd (LongPressDetector_poll d now raw False)) = None
      \<and> fired (snd (LongPressDetector_poll d now raw False)) = False)
   \<and> (k < j \<and> j < length xs \<and> \<not> snd (snd (xs ! k)) \<and> fst (lp_poll_all d xs ! j) \<longrightarrow>
      (\<exists>l. k < l \<and> l \<le> j \<and> snd (lp_poll_all d xs ! l) = Some Pressed
          \<and> fsub (fst (xs ! j)) (fst (xs ! l)) \<ge> long_press_s d
          \<and> (\<forall>m. l \<le> m \<and> m \<le> j \<longrightarrow> snd (snd (xs ! m)))
          \<and> (\<forall>m. l < m \<and> m \<le> j \<longrightarrow> snd (lp_poll_all d xs ! m) = None)))
   \<and> (k < j \<and> j < length xs \<and> \<not> snd (snd (xs ! k)) \<and> fst (lp_poll_all d xs ! j)
        \<and> (\<forall>x \<in> set xs. on_grid n (fst x)) \<longrightarrow>
      (\<exists>l. k < l \<and> l \<le> j \<and> snd (lp_poll_all d xs ! l) = Some Pressed
          \<and> fst (xs ! j) - fst (xs ! l) \<ge> long_press_s d
          \<and> (\<forall>m. l \<le> m \<and> m \<le> j \<longrightarrow> snd (snd (xs ! m)))
          \<and> (\<forall>m. l < m \<and> m \<le> j \<longrightarrow> snd (lp_poll_all d xs ! m) = None)))"
  (is "(?A1 \<longrightarrow> ?C1) \<and> ?C2 \<and> (?A3 \<longrightarrow> ?C3) \<and> (?A4 \<longrightarrow> ?C4)")
proof -
  have 1: "?A1 \<longrightarrow> ?C1"
  proof
    assume a: ?A1
    then have "i < j" "j < length xs" "fst (lp_poll_all d xs ! i)" "fst (lp_poll_all d xs ! j)"
      by simp_all
    then show ?C1 by (rule no_second_fire_without_repress)
  qed
  have 2: ?C2 by (rule poll_disabled)
  have 3: "?A3 \<longrightarrow> ?C3"
  proof
    assume a: ?A3
    then have "k < j" "j < length xs" "\<not> snd (snd (xs ! k))" "fst (lp_poll_all d xs ! j)"
      by simp_all
    then show ?C3 by (rule fresh_hold_after_disable)
  qed
  have 4: "?A4 \<longrightarrow> ?C4"
  proof
    assume a: ?A4
    then have "k < j" "j < length xs" "\<not> snd (snd (xs ! k))" "fst (lp_poll_all d xs ! j)"
      "\<forall>x \<in> set xs. on_grid n (fst x)"
      by simp_all
    then show ?C4 by (rule fresh_hold_after_disable_exact)
  qed
  show ?thesis by (rule conjI [OF 1 conjI [OF 2 conjI [OF 3 4]]])
qed

theorem long_press_fires_once_per_fresh_hold_witness:
  "lp_poll_all (LongPressDetector_init 7 \<lparr>HIGH = 1, LOW = 0\<rparr> 2 False (1/16) 1 0) [(1/8::real, 0::int, True), (2/8, 0, True), (18/8, 0, True), (20/8, 0, True), (3, 1, True), (25/8, 1, True), (4, 0, False), (33/8, 0, True), (49/8, 0, True)] =
      [(False, None), (False, Some Pressed), (True, None), (False, None), (False, None),
       (False, Some Released), (False, None), (False, Some Pressed), (True, None)]
   \<and> (\<exists>k l. 2 < k \<and> k < l \<and> l \<le> 8
        \<and> snd (lp_poll_all (LongPressDetector_init 7 \<lparr>HIGH = 1, LOW = 0\<rparr> 2 False (1/16) 1 0) [(1/8::real, 0::int, True), (2/8, 0, True), (18/8, 0, True), (20/8, 0, True), (3, 1, True), (25/8, 1, True), (4, 0, False), (33/8, 0, True), (49/8, 0, True)] ! k) = Some Released
        \<and> snd (lp_poll_all (LongPressDetector_init 7 \<lparr>HIGH = 1, LOW = 0\<rparr> 2 False (1/16) 1 0) [(1/8::real, 0::int, True), (2/8, 0, True), (18/8, 0, True), (20/8, 0, True), (3, 1, True), (25/8, 1, True), (4, 0, False), (33/8, 0, True), (49/8, 0, True)] ! l) = Some Pressed)
   \<and> fst (LongPressDetector_poll (LongPressDetector_init 7 \<lparr>HIGH = 1, LOW = 0\<rparr> 2 False (1/16) 1 0) 5 0 False) = False
   \<and> \<not> snd (snd ([(1/8::real, 0::int, True), (2/8, 0, True), (18/8, 0, True), (20/8, 0, True), (3, 1, True), (25/8, 1, True), (4, 0, False), (33/8, 0, True), (49/8, 0, True)] ! 6))
   \<and> list_all (\<lambda>x. on_grid 3 (fst x)) [(1/8::real, 0::int, True), (2/8, 0, True), (18/8, 0, True), (20/8, 0, True), (3, 1, True), (25/8, 1, True), (4, 0, False), (33/8, 0, True), (49/8, 0, True)]
   \<and> (\<exists>l. 6 < l \<and> l \<le> 8 \<and> snd (lp_poll_all (LongPressDetector_init 7 \<lparr>HIGH = 1, LOW = 0\<rparr> 2 False (1/16) 1 0) [(1/8::real, 0::int, True), (2/8, 0, True), (18/8, 0, True), (20/8, 0, True), (3, 1, True), (25/8, 1, True), (4, 0, False), (33/8, 0, True), (49/8, 0, True)] ! l) = Some Pressed
        \<and> fsub (fst ([(1/8::real, 0::int, True), (2/8, 0, True), (18/8, 0, True), (20/8, 0, True), (3, 1, True), (25/8, 1, True), (4, 0, False), (33/8, 0, True), (49/8, 0, True)] ! 8)) (fst ([(1/8::real, 0::int, True), (2/8, 0, True), (18/8, 0, True), (20/8, 0, True), (3, 1, True), (25/8, 1, True), (4, 0, False), (33/8, 0, True), (49/8, 0, True)] ! l)) \<ge> long_press_s (LongPressDetector_init 7 \<lparr>HIGH = 1, LOW = 0\<rparr> 2 False (1/16) 1 0))
   \<and> (\<exists>l. 6 < l \<and> l \<le> 8 \<and> snd (lp_poll_all (LongPressDetector_init 7 \<lparr>HIGH = 1, LOW = 0\<rparr> 2 False (1/16) 1 0) [(1/8::real, 0::int, True), (2/8, 0, True), (18/8, 0, True), (20/8, 0, True), (3, 1, True), (25/8, 1, True), (4, 0, False), (33/8, 0, True), (49/8, 0, True)] ! l) = Some Pressed
        \<and> fst ([(1/8::real, 0::int, True), (2/8, 0, True), (18/8, 0, True), (20/8, 0, True), (3, 1, True), (25/8, 1, True), (4, 0, False), (33/8, 0, True), (49/8, 0, True)] ! 8) - fst ([(1/8::real, 0::int, True), (2/8, 0, True), (18/8, 0, True), (20/8, 0, True), (3, 1, True), (25/8, 1, True), (4, 0, False), (33/8, 0, True), (49/8, 0, True)] ! l) \<ge> long_press_s (LongPressDetector_init 7 \<lparr>HIGH = 1, LOW = 0\<rparr> 2 False (1/16) 1 0))"
proof -
  define d0 where "d0 = (LongPressDetector_init 7 \<lparr>HIGH = 1, LOW = 0\<rparr> 2 False (1/16) 1 0)"
  define xs0 :: "(real \<times> int \<times> bool) list" where "xs0 = [(1/8::real, 0::int, True), (2/8, 0, True), (18/8, 0, True), (20/8, 0, True), (3, 1, True), (25/8, 1, True), (4, 0, False), (33/8, 0, True), (49/8, 0, True)]"
  have fs: "fsub (1/4) (1/8) = 1/8" "fsub (9/4) (1/8) = 17/8" "fsub (9/4) (1/4) = 2"
    "fsub (5/2) (1/8) = 19/8" "fsub (5/2) (1/4) = 9/4" "fsub 3 (1/4) = 11/4"
    "fsub 3 (1/8) = 23/8" "fsub (25/8) 3 = 1/8" "fsub (25/8) (1/4) = 23/8"
    "fsub (33/8) 4 = 1/8" "fsub (49/8) 4 = 17/8" "fsub (49/8) (33/8) = 2"
    "fsub 4 (1/4) = 15/4" "fsub 4 3 = 1"
    by (simp_all add: fsub_exact [of 3] on_grid_def)
  have obs: "lp_poll_all d0 xs0 =
      [(False, None), (False, Some Pressed), (True, None), (False, None), (False, None),
       (False, Some Released), (False, None), (False, Some Pressed), (True, None)]"
    unfolding d0_def xs0_def
    by (simp add: LongPressDetector_poll_def update_stable_def track_raw_def Let_def
        is_pressed_level_def held_def debounced_edge_def LongPressDetector_init_def fs)
  note t = long_press_fires_once_per_fresh_hold [where d = d0 and xs = xs0 and i = 2 and j = 8 and k = 6 and now = 5
      and raw = 0 and n = 3]
  have len: "length xs0 = 9" and dis: "\<not> snd (snd (xs0 ! 6))" by (simp_all add: xs0_def)
  have grid: "list_all (\<lambda>x. on_grid 3 (fst x)) xs0" by (simp add: xs0_def on_grid_def)
  then have grid': "\<forall>x \<in> set xs0. on_grid 3 (fst x)" by (simp only: list_all_iff)
  have h1: "(2::nat) < 8 \<and> 8 < length xs0 \<and> fst (lp_poll_all d0 xs0 ! 2)
      \<and> fst (lp_poll_all d0 xs0 ! 8)"
    by (simp add: obs len)
  have h3: "(6::nat) < 8 \<and> 8 < length xs0 \<and> \<not> snd (snd (xs0 ! 6))
      \<and> fst (lp_poll_all d0 xs0 ! 8)"
    using dis by (simp add: obs len)
  have h4: "(6::nat) < 8 \<and> 8 < length xs0 \<and> \<not> snd (snd (xs0 ! 6))
      \<and> fst (lp_poll_all d0 xs0 ! 8) \<and> (\<forall>x \<in> set xs0. on_grid 3 (fst x))"
    using h3 grid' by (intro conjI) simp_all
  have c1: "\<exists>k l. 2 < k \<and> k < l \<and> l \<le> 8
        \<and> snd (lp_poll_all d0 xs0 ! k) = Some Released
        \<and> snd (lp_poll_all d0 xs0 ! l) = Some Pressed"
    by (rule t [THEN conjunct1, THEN mp, OF h1])
  have c2: "fst (LongPressDetector_poll d0 5 0 False) = False"
    by (rule t [THEN conjunct2, THEN conjunct1, THEN conjunct1])
  from t [THEN conjunct2, THEN conjunct2, THEN conjunct1, THEN mp, OF h3] obtain l where
    "6 < l" "l \<le> 8" "snd (lp_poll_all d0 xs0 ! l) = Some Pressed"
    "fsub (fst (xs0 ! 8)) (fst (xs0 ! l)) \<ge> long_press_s d0" by blast
  then have c3: "\<exists>l. 6 < l \<and> l \<le> 8 \<and> snd (lp_poll_all d0 xs0 ! l) = Some Pressed
        \<and> fsub (fst (xs0 ! 8)) (fst (xs0 ! l)) \<ge> long_press_s d0" by blast
  from t [THEN conjunct2, THEN conjunct2, THEN conjunct2, THEN mp, OF h4] obtain l where
    "6 < l" "l \<le> 8" "snd (lp_poll_all d0 xs0 ! l) = Some Pressed"
    "fst (xs0 ! 8) - fst (xs0 ! l) \<ge> long_press_s d0" by blast
  then have c4: "\<exists>l. 6 < l \<and> l \<le> 8 \<and> snd (lp_poll_all d0 xs0 ! l) = Some Pressed
        \<and> fst (xs0 ! 8) - fst (xs0 ! l) \<ge> long_press_s d0" by blast
  from obs c1 c2 dis grid c3 c4 show ?thesis unfolding d0_def xs0_def by (intro conjI)
qed

section \<open>Properties of the recorder and the pipeline\<close>

lemma stop_when_idle:
  "\<not> is_recording r \<Longrightarrow> AudioRecorder_stop r t script = (Returned 0 script, r, [])"
  by (simp add: is_recording_def AudioRecorder_stop_def)

lemma stop_returns_idle:
  "AudioRecorder_stop r t script = (Returned dur rest, r', evs) \<Longrightarrow> is_recording r \<Longrightarrow>
     \<not> is_recording r'"
  by (auto simp: is_recording_def AudioRecorder_stop_def Let_def
      split: option.splits list.splits if_splits)

lemma stop_two_samples:
  assumes "is_recording r"
  shows "\<exists>dur r'. AudioRecorder_stop r t (s1 # s2 # rest) =
           (Returned dur (if started_t r = None \<or> started_t r = Some 0 then s2 # rest else rest), r',
            [SendSignal SIGINT, Wait (Some t)] @ (if proc_exits s1 then [] else [Kill, Wait None]))
         \<and> \<not> is_recording r'"
  using assms
  by (auto simp: is_recording_def AudioRecorder_stop_def Let_def split: option.splits)

text \<open>
  Claim C3. \<open>stop\<close> on an idle recorder returns duration 0, leaves the recorder as it
  is and sends nothing to any process. On a recording recorder, with the two answers it
  may read (the bounded wait and the clock), it returns, after the interrupt signal and
  the bounded wait, and after the kill and the unbounded wait when the process had not
  exited in time; the recorder is idle afterwards on both paths. Whenever \<open>stop\<close> on a
  recording recorder returns at all, the recorder is idle.
\<close>

theorem stop_idle_is_noop_and_stop_ends_idle:
  "(\<not> is_recording r0 \<longrightarrow> AudioRecorder_stop r0 t script0 = (Returned 0 script0, r0, []))
   \<and> (is_recording r \<longrightarrow>
        (\<exists>dur r'. AudioRecorder_stop r t (s1 # s2 # rest) =
           (Returned dur (if started_t r = None \<or> started_t r = Some 0 then s2 # rest else rest), r',
            [SendSignal SIGINT, Wait (Some t)] @ (if proc_exits s1 then [] else [Kill, Wait None]))
         \<and> \<not> is_recording r'))
   \<and> (is_recording r \<and> AudioRecorder_stop r t script = (Returned d rest', r1, evs) \<longrightarrow>
        \<not> is_recording r1)"
  using stop_when_idle [of r0 t script0] stop_two_samples [of r t s1 s2 rest]
    stop_returns_idle [of r t script d rest' r1 evs]
  by blast

theorem stop_idle_is_noop_and_stop_ends_idle_witness:
  "\<not> is_recording (demo_recorder None None)
   \<and> AudioRecorder_stop (demo_recorder None None) 3 [reading 1 0]
       = (Returned 0 [reading 1 0], demo_recorder None None, [])
   \<and> is_recording (demo_recorder (Some (Arecord (ascii ''audio_files/speech.wav''))) (Some 10))
   \<and> AudioRecorder_stop (demo_recorder (Some (Arecord (ascii ''audio_files/speech.wav''))) (Some 10))
         3 [demo_sample 11 0 False (demo_services [] [] None), reading 15 0]
       = (Returned 5 [], demo_recorder None None,
          [SendSignal SIGINT, Wait (Some 3), Kill, Wait None])
   \<and> AudioRecorder_stop (demo_recorder (Some (Arecord (ascii ''audio_files/speech.wav''))) (Some 10))
         3 [reading 11 0, reading 12 0]
       = (Returned 2 [], demo_recorder None None, [SendSignal SIGINT, Wait (Some 3)])
   \<and> \<not> is_recording (demo_recorder None None)"
  using stop_idle_is_noop_and_stop_ends_idle [where ?r0.0 = "demo_recorder None None" and t = 3 and ?script0.0 = "[reading 1 0]"
      and r = "demo_recorder (Some (Arecord (ascii ''audio_files/speech.wav''))) (Some 10)"
      and ?s1.0 = "demo_sample 11 0 False (demo_services [] [] None)" and ?s2.0 = "reading 15 0"
      and rest = "[]" and script = "[reading 11 0, reading 12 0]" and d = 2 and rest' = "[]"
      and ?r1.0 = "demo_recorder None None" and evs = "[SendSignal SIGINT, Wait (Some 3)]"]
  by (simp add: is_recording_def AudioRecorder_stop_def Let_def demo_recorder_def reading_def
      demo_sample_def fsub_exact [of 0] on_grid_def)

lemma process_no_speech:
  assumes "transcribe_fn (services s1) wav = []"
  shows "TranslationPipeline_process pl wav src tgt u (s1 # s2 # rest) =
      (Returned (None, None) rest,
       u\<lparr>lcd := (lcd u)\<lparr>scroll_text := [], scroll_offset := 0, scroll_last_time := clock s2\<rparr>,
         events := events u @ [LcdWrite (ascii ''Transcribing...'') [], Transcribe wav,
                               LcdWrite (ascii ''No speech'') (ascii ''Try again'')]\<rparr>)"
    and "TranslationPipeline_process pl wav src tgt u [s1] =
      (Interrupted,
       u\<lparr>lcd := (lcd u)\<lparr>scroll_text := [], scroll_offset := 0\<rparr>,
         events := events u @ [LcdWrite (ascii ''Transcribing...'') [], Transcribe wav]\<rparr>)"
  using assms
  by (simp_all add: TranslationPipeline_process_def Let_def and_then_def LCDDisplay_write_def
      emit_def LCDDisplay_clear_scroll_def LCDDisplay_set_scroll_text_def)

text \<open>
  Claim C4. For every audio path and language pair, when the transcription collaborator
  returns the empty string, \<open>process\<close> returns \<open>(None, None)\<close>, the scroll text of the
  display is empty with offset 0, and the effects are exactly the "Transcribing..."
  write, the transcription call and the "No speech" write: translation, synthesis and
  playback are not called. If the interrupt arrives at the clock read, the effects are
  only the first two.
\<close>

theorem process_without_speech_returns_none:
  "transcribe_fn (services s1) wav = [] \<longrightarrow>
     TranslationPipeline_process pl wav src tgt u (s1 # s2 # rest) =
      (Returned (None, None) rest,
       u\<lparr>lcd := (lcd u)\<lparr>scroll_text := [], scroll_offset := 0, scroll_last_time := clock s2\<rparr>,
         events := events u @ [LcdWrite (ascii ''Transcribing...'') [], Transcribe wav,
                               LcdWrite (ascii ''No speech'') (ascii ''Try again'')]\<rparr>)
   \<and> TranslationPipeline_process pl wav src tgt u [s1] =
      (Interrupted,
       u\<lparr>lcd := (lcd u)\<lparr>scroll_text := [], scroll_offset := 0\<rparr>,
         events := events u @ [LcdWrite (ascii ''Transcribing...'') [], Transcribe wav]\<rparr>)"
  by (intro impI conjI; erule process_no_speech)

lemma process_speech:
  assumes "transcribe_fn (services s1) wav = heard" "heard \<noteq> []"
    and "translate_fn (services s2) heard src tgt = out"
    and "tts_synthesize (services s4) out tgt = synth"
  shows "TranslationPipeline_process pl wav src tgt u (s1 # s2 # s3 # s4 # rest) =
      (Returned (Some heard, Some out) rest,
       u\<lparr>lcd := (lcd u)\<lparr>scroll_text := out, scroll_offset := 0, scroll_last_time := clock s3\<rparr>,
         events := events u @
           [LcdWrite (ascii ''Transcribing...'') [], Transcribe wav,
            LcdWrite (ascii ''Translating...'') [], Translate heard src tgt,
            LcdWrite (take 3 src @ [8594] @ take 3 tgt) (take (lcd_cols pl) out),
            Synthesize out tgt]
           @ (case synth of None \<Rightarrow> [] | Some p \<Rightarrow> if p = [] then [] else [PlayWav p])\<rparr>)"
  using assms
  by (cases synth)
    (simp_all add: TranslationPipeline_process_def Let_def and_then_def LCDDisplay_write_def
      emit_def LCDDisplay_set_scroll_text_def)

theorem process_without_speech_returns_none_witness:
  "transcribe_fn (services (demo_sample 1 0 True (demo_services [] (ascii ''ciao'') None)))
      (ascii ''audio_files/speech.wav'') = []
   \<and> TranslationPipeline_process \<lparr>lcd_cols = 16\<rparr> (ascii ''audio_files/speech.wav'')
        (ascii ''eng_Latn'') (ascii ''ita_Latn'') demo_io
        [demo_sample 1 0 True (demo_services [] (ascii ''ciao'') None), reading 2 0, reading 3 0] =
      (Returned (None, None) [reading 3 0],
       demo_io\<lparr>lcd := demo_lcd\<lparr>scroll_text := [], scroll_offset := 0, scroll_last_time := 2\<rparr>,
         events := [LcdWrite (ascii ''Transcribing...'') [],
                    Transcribe (ascii ''audio_files/speech.wav''),
                    LcdWrite (ascii ''No speech'') (ascii ''Try again'')]\<rparr>)"
  using process_without_speech_returns_none [of "demo_sample 1 0 True (demo_services [] (ascii ''ciao'') None)"
      "ascii ''audio_files/speech.wav''" "\<lparr>lcd_cols = 16\<rparr>" "ascii ''eng_Latn''"
      "ascii ''ita_Latn''" demo_io "reading 2 0" "[reading 3 0]"]
  by (simp add: demo_sample_def demo_services_def reading_def demo_io_def)

text \<open>
  Claim C9. The synthesis collaborators under \<open>src/\<close> return \<open>None\<close> or the path of the
  \<open>.wav\<close> file they wrote, never the empty string. For every non-empty recognized text
  and every synthesis result of that kind, \<open>process\<close> writes the header made of exactly
  the first 3 characters of the source code, the arrow and the first 3 characters of the
  target code, sets the scroll text to the translated text, returns
  \<open>(recognized, translated)\<close>, and its last effect after the synthesis call is the
  playback of the synthesized file when there is one and nothing when the result is
  \<open>None\<close>: playback is skipped exactly when synthesis returns \<open>None\<close>.
\<close>

theorem process_with_speech_header_scroll_and_playback:
  "transcribe_fn (services s1) wav = heard \<and> heard \<noteq> []
   \<and> translate_fn (services s2) heard src tgt = out
   \<and> tts_synthesize (services s4) out tgt = synth \<and> synth \<noteq> Some [] \<longrightarrow>
     TranslationPipeline_process pl wav src tgt u (s1 # s2 # s3 # s4 # rest) =
      (Returned (Some heard, Some out) rest,
       u\<lparr>lcd := (lcd u)\<lparr>scroll_text := out, scroll_offset := 0, scroll_last_time := clock s3\<rparr>,
         events := events u @
           [LcdWrite (ascii ''Transcribing...'') [], Transcribe wav,
            LcdWrite (ascii ''Translating...'') [], Translate heard src tgt,
            LcdWrite (take 3 src @ [8594] @ take 3 tgt) (take (lcd_cols pl) out),
            Synthesize out tgt]
           @ (case synth of None \<Rightarrow> [] | Some p \<Rightarrow> [PlayWav p])\<rparr>)
     \<and> ((\<forall>p. PlayWav p \<notin> set (drop (length (events u))
            (events (snd (TranslationPipeline_process pl wav src tgt u
                            (s1 # s2 # s3 # s4 # rest))))))
          \<longleftrightarrow> synth = None)"
proof
  assume a: "transcribe_fn (services s1) wav = heard \<and> heard \<noteq> []
   \<and> translate_fn (services s2) heard src tgt = out
   \<and> tts_synthesize (services s4) out tgt = synth \<and> synth \<noteq> Some []"
  then have h: "transcribe_fn (services s1) wav = heard" "heard \<noteq> []"
    "translate_fn (services s2) heard src tgt = out"
    "tts_synthesize (services s4) out tgt = synth" and c: "synth \<noteq> Some []" by simp_all
  from c have "(case synth of None \<Rightarrow> [] | Some p \<Rightarrow> if p = [] then [] else [PlayWav p])
      = (case synth of None \<Rightarrow> [] | Some p \<Rightarrow> [PlayWav p])"
    by (cases synth) simp_all
  with process_speech [OF h, of pl u s3 rest]
  have eq: "TranslationPipeline_process pl wav src tgt u (s1 # s2 # s3 # s4 # rest) =
      (Returned (Some heard, Some out) rest,
       u\<lparr>lcd := (lcd u)\<lparr>scroll_text := out, scroll_offset := 0, scroll_last_time := clock s3\<rparr>,
         events := events u @
           [LcdWrite (ascii ''Transcribing...'') [], Transcribe wav,
            LcdWrite (ascii ''Translating...'') [], Translate heard src tgt,
            LcdWrite (take 3 src @ [8594] @ take 3 tgt) (take (lcd_cols pl) out),
            Synthesize out tgt]
           @ (case synth of None \<Rightarrow> [] | Some p \<Rightarrow> [PlayWav p])\<rparr>)"
    by simp
  have "(\<forall>p. PlayWav p \<notin> set (drop (length (events u))
            (events (snd (TranslationPipeline_process pl wav src tgt u
                            (s1 # s2 # s3 # s4 # rest))))))
          \<longleftrightarrow> synth = None"
    unfolding eq by (cases synth) auto
  with eq show "TranslationPipeline_process pl wav src tgt u (s1 # s2 # s3 # s4 # rest) =
      (Returned (Some heard, Some out) rest,
       u\<lparr>lcd := (lcd u)\<lparr>scroll_text := out, scroll_offset := 0, scroll_last_time := clock s3\<rparr>,
         events := events u @
           [LcdWrite (ascii ''Transcribing...'') [], Transcribe wav,
            LcdWrite (ascii ''Translating...'') [], Translate heard src tgt,
            LcdWrite (take 3 src @ [8594] @ take 3 tgt) (take (lcd_cols pl) out),
            Synthesize out tgt]
           @ (case synth of None \<Rightarrow> [] | Some p \<Rightarrow> [PlayWav p])\<rparr>)
     \<and> ((\<forall>p. PlayWav p \<notin> set (drop (length (events u))
            (events (snd (TranslationPipeline_process pl wav src tgt u
                            (s1 # s2 # s3 # s4 # rest))))))
          \<longleftrightarrow> synth = None)"
    by (rule conjI)
qed

theorem process_with_speech_header_scroll_and_playback_witness:
  "transcribe_fn (services (demo_sample 1 0 True (demo_services (ascii ''hello'') (ascii ''ciao'') (Some (ascii ''tts.wav''))))) (ascii ''audio_files/speech.wav'')
      = ascii ''hello''
   \<and> ascii ''hello'' \<noteq> []
   \<and> tts_synthesize (services (demo_sample 4 0 True (demo_services (ascii ''hello'') (ascii ''ciao'') (Some (ascii ''tts.wav''))))) (ascii ''ciao'') (ascii ''ita_Latn'')
      = Some (ascii ''tts.wav'')
   \<and> Some (ascii ''tts.wav'') \<noteq> Some []
   \<and> TranslationPipeline_process \<lparr>lcd_cols = 16\<rparr> (ascii ''audio_files/speech.wav'')
        (ascii ''eng_Latn'') (ascii ''ita_Latn'') demo_io
        [demo_sample 1 0 True (demo_services (ascii ''hello'') (ascii ''ciao'') (Some (ascii ''tts.wav''))), demo_sample 2 0 True (demo_services (ascii ''hello'') (ascii ''ciao'') (Some (ascii ''tts.wav''))), reading 3 0,
         demo_sample 4 0 True (demo_services (ascii ''hello'') (ascii ''ciao'') (Some (ascii ''tts.wav'')))] =
      (Returned (Some (ascii ''hello''), Some (ascii ''ciao'')) [],
       demo_io\<lparr>lcd := demo_lcd\<lparr>scroll_text := ascii ''ciao'', scroll_offset := 0,
                              scroll_last_time := 3\<rparr>,
         events := [LcdWrite (ascii ''Transcribing...'') [],
                    Transcribe (ascii ''audio_files/speech.wav''),
                    LcdWrite (ascii ''Translating...'') [],
                    Translate (ascii ''hello'') (ascii ''eng_Latn'') (ascii ''ita_Latn''),
                    LcdWrite (ascii ''eng'' @ [8594] @ ascii ''ita'') (ascii ''ciao''),
                    Synthesize (ascii ''ciao'') (ascii ''ita_Latn''),
                    PlayWav (ascii ''tts.wav'')]\<rparr>)
   \<and> tts_synthesize (services (demo_sample 4 0 True (demo_services (ascii ''hello'') (ascii ''ciao'') None))) (ascii ''ciao'') (ascii ''ita_Latn'')
      = None
   \<and> TranslationPipeline_process \<lparr>lcd_cols = 16\<rparr> (ascii ''audio_files/speech.wav'')
        (ascii ''eng_Latn'') (ascii ''ita_Latn'') demo_io
        [demo_sample 1 0 True (demo_services (ascii ''hello'') (ascii ''ciao'') None), demo_sample 2 0 True (demo_services (ascii ''hello'') (ascii ''ciao'') None), reading 3 0,
         demo_sample 4 0 True (demo_services (ascii ''hello'') (ascii ''ciao'') None)] =
      (Returned (Some (ascii ''hello''), Some (ascii ''ciao'')) [],
       demo_io\<lparr>lcd := demo_lcd\<lparr>scroll_text := ascii ''ciao'', scroll_offset := 0,
                              scroll_last_time := 3\<rparr>,
         events := [LcdWrite (ascii ''Transcribing...'') [],
                    Transcribe (ascii ''audio_files/speech.wav''),
                    LcdWrite (ascii ''Translating...'') [],
                    Translate (ascii ''hello'') (ascii ''eng_Latn'') (ascii ''ita_Latn''),
                    LcdWrite (ascii ''eng'' @ [8594] @ ascii ''ita'') (ascii ''ciao''),
                    Synthesize (ascii ''ciao'') (ascii ''ita_Latn'')]\<rparr>)"
  using process_with_speech_header_scroll_and_playback [where
      ?s1.0 = "demo_sample 1 0 True (demo_services (ascii ''hello'') (ascii ''ciao'') (Some (ascii ''tts.wav'')))" and wav = "ascii ''audio_files/speech.wav''"
      and heard = "ascii ''hello''" and ?s2.0 = "demo_sample 2 0 True (demo_services (ascii ''hello'') (ascii ''ciao'') (Some (ascii ''tts.wav'')))"
      and src = "ascii ''eng_Latn''" and tgt = "ascii ''ita_Latn''" and out = "ascii ''ciao''"
      and ?s4.0 = "demo_sample 4 0 True (demo_services (ascii ''hello'') (ascii ''ciao'') (Some (ascii ''tts.wav'')))" and synth = "Some (ascii ''tts.wav'')"
      and pl = "\<lparr>lcd_cols = 16\<rparr>" and u = demo_io and ?s3.0 = "reading 3 0" and rest = "[]"]
    process_with_speech_header_scroll_and_playback [where
      ?s1.0 = "demo_sample 1 0 True (demo_services (ascii ''hello'') (ascii ''ciao'') None)" and wav = "ascii ''audio_files/speech.wav''"
      and heard = "ascii ''hello''" and ?s2.0 = "demo_sample 2 0 True (demo_services (ascii ''hello'') (ascii ''ciao'') None)"
      and src = "ascii ''eng_Latn''" and tgt = "ascii ''ita_Latn''" and out = "ascii ''ciao''"
      and ?s4.0 = "demo_sample 4 0 True (demo_services (ascii ''hello'') (ascii ''ciao'') None)" and synth = None
      and pl = "\<lparr>lcd_cols = 16\<rparr>" and u = demo_io and ?s3.0 = "reading 3 0" and rest = "[]"]
  by (simp add: demo_sample_def demo_services_def reading_def demo_io_def ascii_def)

section \<open>Properties of the language selector\<close>

lemma io_step_refl: "io_step u u []"
  unfolding io_step_def by (rule exI [of _ "lcd u"]) simp

lemma io_step_trans: "io_step u v es \<Longrightarrow> io_step v w fs \<Longrightarrow> io_step u w (es @ fs)"
  unfolding io_step_def by auto

lemma io_step_emit: "io_step u (emit e u) [e]"
  unfolding io_step_def emit_def by (rule exI [of _ "lcd u"]) simp

lemma io_step_write: "io_step u (LCDDisplay_write a b u) [LcdWrite a b]"
  unfolding LCDDisplay_write_def by (rule io_step_emit)

lemma io_step_lcd: "io_step u (u\<lparr>lcd := l\<rparr>) []"
  unfolding io_step_def by (rule exI [of _ l]) simp

lemma io_step_events: "io_step u u' es \<Longrightarrow> events u' = events u @ es"
  unfolding io_step_def by auto

lemma set_scroll_text_step:
  "LCDDisplay_set_scroll_text t u script = (res, u') \<Longrightarrow> io_step u u' []"
  by (auto simp: LCDDisplay_set_scroll_text_def Let_def io_step_def split: list.splits)

lemma clear_scroll_step:
  "LCDDisplay_clear_scroll u script = (res, u') \<Longrightarrow> io_step u u' []"
  unfolding LCDDisplay_clear_scroll_def by (rule set_scroll_text_step)

lemma clear_scroll_suffix:
  "LCDDisplay_clear_scroll u script = (Returned x rest, u') \<Longrightarrow> \<exists>s. script = s # rest"
  by (auto simp: LCDDisplay_clear_scroll_def LCDDisplay_set_scroll_text_def Let_def
      split: list.splits)

lemma settle_suffix: "settle sel start script = Some rest \<Longrightarrow> suffix rest script"
  by (induction sel start script rule: settle.induct)
    (auto split: if_splits intro: suffix_ConsI)

lemma select_one_outcome:
  assumes "select_one sel prompt options init u script = (res, u')"
  obtains (no_clock) "script = []" "res = Interrupted" "io_step u u' []"
    | (no_options) "options = []" "res = Raised ZeroDivisionError" "io_step u u' []"
    | (early) "options \<noteq> []" "res = Interrupted"
        "io_step u u' [LcdWrite prompt (fst (options ! nat (init mod int (length options))))]"
    | (loop) s0 s_clk s_t rest2 s_sw rest4 u1 where "options \<noteq> []"
        "script = s0 # s_clk # s_t # rest2"
        "settle sel (clock s_t) rest2 = Some (s_sw # rest4)"
        "io_step u u1 [LcdWrite prompt (fst (options ! nat (init mod int (length options))))]"
        "select_loop sel prompt options (init mod int (length options))
           (options ! nat (init mod int (length options)))
           (level s_clk (clk_pin sel)) (level s_sw (sw_pin sel)) u1 rest4 = (res, u')"
proof (cases script)
  case Nil
  with assms have "res = Interrupted" "io_step u u' []"
    by (auto simp: select_one_def and_then_def LCDDisplay_clear_scroll_def
        LCDDisplay_set_scroll_text_def Let_def io_step_def)
  with Nil show ?thesis by (rule no_clock)
next
  case (Cons s0 rest0)
  define u0 where "u0 = u\<lparr>lcd := (lcd u)\<lparr>scroll_text := [], scroll_offset := 0,
      scroll_last_time := clock s0\<rparr>\<rparr>"
  have cs: "LCDDisplay_clear_scroll u script = (Returned () rest0, u0)"
    by (simp add: Cons u0_def LCDDisplay_clear_scroll_def LCDDisplay_set_scroll_text_def Let_def)
  have st0: "io_step u u0 []" unfolding u0_def by (rule io_step_lcd)
  show ?thesis
  proof (cases "options = []")
    case True
    with assms cs have "res = Raised ZeroDivisionError" "u' = u0"
      by (simp_all add: select_one_def and_then_def)
    with True st0 show ?thesis by (auto intro: no_options)
  next
    case False
    define i0 where "i0 = init mod int (length options)"
    define u1 where "u1 = LCDDisplay_write prompt (fst (options ! nat i0)) u0"
    have st1: "io_step u u1 [LcdWrite prompt (fst (options ! nat i0))]"
      using io_step_trans [OF st0 io_step_write [of u0 prompt "fst (options ! nat i0)"]]
      by (simp add: u1_def)
    have body: "(case rest0 of
                     s_clk # s_t # rest2 \<Rightarrow>
                       (case settle sel (clock s_t) rest2 of
                          None \<Rightarrow> (Interrupted, u1)
                        | Some rest3 \<Rightarrow>
                            (case rest3 of
                               [] \<Rightarrow> (Interrupted, u1)
                             | s_sw # rest4 \<Rightarrow>
                                 select_loop sel prompt options i0 (options ! nat i0)
                                   (level s_clk (clk_pin sel)) (level s_sw (sw_pin sel))
                                   u1 rest4))
                   | _ \<Rightarrow> (Interrupted, u1)) = (res, u')"
      using assms cs False unfolding i0_def u1_def
      by (simp add: select_one_def and_then_def Let_def)
    show ?thesis
    proof (cases "\<exists>s_clk s_t rest2 s_sw rest4. rest0 = s_clk # s_t # rest2
        \<and> settle sel (clock s_t) rest2 = Some (s_sw # rest4)")
      case True
      then obtain s_clk s_t rest2 s_sw rest4 where r: "rest0 = s_clk # s_t # rest2"
        "settle sel (clock s_t) rest2 = Some (s_sw # rest4)" by blast
      with body have "select_loop sel prompt options i0 (options ! nat i0)
                                   (level s_clk (clk_pin sel)) (level s_sw (sw_pin sel))
                                   u1 rest4 = (res, u')" by simp
      with False r st1 Cons show ?thesis unfolding i0_def by (auto intro: loop)
    next
      case F2: False
      with body have "res = Interrupted" "u' = u1"
        by (auto split: list.splits option.splits)
      with False st1 show ?thesis unfolding i0_def by (auto intro: early)
    qed
  qed
qed

lemma rotation_block_step:
  "clk \<noteq> last_clk \<Longrightarrow> dt \<noteq> clk \<Longrightarrow>
     fst (rotation_block prompt options index chosen last_clk u clk dt)
       = (index + 1) mod int (length options)"
  "clk \<noteq> last_clk \<Longrightarrow> dt = clk \<Longrightarrow>
     fst (rotation_block prompt options index chosen last_clk u clk dt)
       = (index - 1) mod int (length options)"
  "clk = last_clk \<Longrightarrow>
     rotation_block prompt options index chosen last_clk u clk dt = (index, chosen, last_clk, u)"
  by (simp_all add: rotation_block_def Let_def)

lemma rotation_block_in_range:
  assumes "options \<noteq> []" "0 \<le> index" "index < int (length options)"
    and "rotation_block prompt options index chosen last_clk u clk dt = (i1, c1, l1, u1)"
  shows "0 \<le> i1 \<and> i1 < int (length options) \<and> (clk \<noteq> last_clk \<longrightarrow> c1 = options ! nat i1)"
  using assms by (auto simp: rotation_block_def Let_def split: if_splits)

lemma rotation_block_keeps_choice:
  assumes "options \<noteq> []" "0 \<le> index \<and> index < int (length options) \<and> chosen = options ! nat index"
    and "rotation_block prompt options index chosen last_clk u clk dt = (i1, c1, l1, u1)"
  shows "0 \<le> i1 \<and> i1 < int (length options) \<and> c1 = options ! nat i1"
  using assms by (auto simp: rotation_block_def Let_def split: if_splits)

lemma select_one_in_list:
  assumes "select_one sel prompt options init u script = (Returned picked rest, u')"
  shows "picked \<in> set options"
  using assms
proof (cases rule: select_one_outcome)
  case (loop s0 s_clk s_t rest2 s_sw rest4 u1)
  define I where "I = (\<lambda>i c (l::int) (v::'a io_scheme).
      0 \<le> i \<and> i < int (length options) \<and> c = options ! nat i)"
  have "loop_post I rest4
      (select_loop sel prompt options (init mod int (length options))
           (options ! nat (init mod int (length options)))
           (level s_clk (clk_pin sel)) (level s_sw (sw_pin sel)) u1 rest4)"
  proof (rule select_loop_rule)
    show "I (init mod int (length options)) (options ! nat (init mod int (length options)))
        (level s_clk (clk_pin sel)) u1"
      using loop(1) by (simp add: I_def)
  next
    fix i c l v s1 dt
    assume a: "I i c l v"
    obtain i1 c1 l1 v1 where rb:
      "rotation_block prompt options i c l v (level s1 (clk_pin sel)) dt = (i1, c1, l1, v1)"
      by (metis prod_cases4)
    from a have "0 \<le> i \<and> i < int (length options) \<and> c = options ! nat i"
      by (simp add: I_def)
    from rotation_block_keeps_choice [OF loop(1) this rb] have "I i1 c1 l1 v1"
      by (simp add: I_def)
    then show "case rotation_block prompt options i c l v (level s1 (clk_pin sel)) dt of
          (i1, c1, l1, v1) \<Rightarrow> I i1 c1 l1 v1"
      by (simp add: rb)
  qed
  then have "\<exists>i l. I i picked l u'"
    unfolding loop(5) loop_post_def by simp
  then obtain i where "0 \<le> i" "i < int (length options)" "picked = options ! nat i"
    unfolding I_def by blast
  then show ?thesis by simp
qed simp_all

text \<open>
  Claim C5. For a non-empty option list of length \<open>N\<close> and any current index, the
  rotation block at a CLK transition yields the index plus 1 modulo \<open>N\<close> when DT differs
  from CLK and the index minus 1 modulo \<open>N\<close> when DT equals CLK; from an index in
  \<open>[0, N)\<close> the index stays in \<open>[0, N)\<close>, and after a transition the option chosen is
  the one at the new index; whatever \<open>select_one\<close> returns is an element of the list.
\<close>

theorem rotation_steps_modulo_and_selection_in_list:
  "(options \<noteq> [] \<and> clk \<noteq> last_clk \<and> dt \<noteq> clk \<longrightarrow>
      fst (rotation_block prompt options index chosen last_clk u clk dt)
        = (index + 1) mod int (length options))
   \<and> (options \<noteq> [] \<and> clk \<noteq> last_clk \<and> dt = clk \<longrightarrow>
      fst (rotation_block prompt options index chosen last_clk u clk dt)
        = (index - 1) mod int (length options))
   \<and> (options \<noteq> [] \<and> 0 \<le> index \<and> index < int (length options) \<longrightarrow>
      (case rotation_block prompt options index chosen last_clk u clk dt of
         (i1, c1, l1, u1) \<Rightarrow>
           0 \<le> i1 \<and> i1 < int (length options) \<and> (clk \<noteq> last_clk \<longrightarrow> c1 = options ! nat i1)))
   \<and> (select_one sel prompt options initial_index u script = (Returned picked rest, u') \<longrightarrow>
      picked \<in> set options)"
proof (intro conjI impI)
  assume "options \<noteq> [] \<and> clk \<noteq> last_clk \<and> dt \<noteq> clk"
  then show "fst (rotation_block prompt options index chosen last_clk u clk dt)
        = (index + 1) mod int (length options)"
    by (simp add: rotation_block_step)
next
  assume "options \<noteq> [] \<and> clk \<noteq> last_clk \<and> dt = clk"
  then show "fst (rotation_block prompt options index chosen last_clk u clk dt)
        = (index - 1) mod int (length options)"
    by (simp add: rotation_block_step)
next
  assume a: "options \<noteq> [] \<and> 0 \<le> index \<and> index < int (length options)"
  obtain i1 c1 l1 u1 where rb:
    "rotation_block prompt options index chosen last_clk u clk dt = (i1, c1, l1, u1)"
    by (metis prod_cases4)
  from a rotation_block_in_range [OF _ _ _ rb]
  show "case rotation_block prompt options index chosen last_clk u clk dt of
         (i1, c1, l1, u1) \<Rightarrow>
           0 \<le> i1 \<and> i1 < int (length options) \<and> (clk \<noteq> last_clk \<longrightarrow> c1 = options ! nat i1)"
    by (simp add: rb)
next
  assume "select_one sel prompt options initial_index u script = (Returned picked rest, u')"
  then show "picked \<in> set options" by (rule select_one_in_list)
qed

lemmas selector_eval = select_one_def and_then_def LCDDisplay_clear_scroll_def
  LCDDisplay_set_scroll_text_def LCDDisplay_write_def emit_def Let_def rotation_block_def
  sw_pressed_def demo_selector_def demo_choices_def reading_def demo_sample_def demo_io_def
  press_only_def turn_then_press_def knob_def

lemma demo_turn:
  "select_one demo_selector (ascii ''Select Lang 1:'') demo_choices 0 demo_io turn_then_press =
     (Returned (ascii ''Italian'', ascii ''ita_Latn'') [],
      demo_io\<lparr>lcd := demo_lcd\<lparr>scroll_text := [], scroll_offset := 0, scroll_last_time := 0\<rparr>,
        events := [LcdWrite (ascii ''Select Lang 1:'') (ascii ''English''),
                   LcdWrite (ascii ''Select Lang 1:'') (ascii ''Italian'')]\<rparr>)"
  by (simp add: selector_eval)

theorem rotation_steps_modulo_and_selection_in_list_witness:
  "demo_choices \<noteq> []
   \<and> fst (rotation_block (ascii ''Select Lang 1:'') demo_choices 2 (demo_choices ! 2) 0 demo_io 1 0) = 0
   \<and> fst (rotation_block (ascii ''Select Lang 1:'') demo_choices 0 (demo_choices ! 0) 0 demo_io 1 1) = 2
   \<and> fst (select_one demo_selector (ascii ''Select Lang 1:'') demo_choices 0 demo_io turn_then_press)
       = Returned (ascii ''Italian'', ascii ''ita_Latn'') []
   \<and> (ascii ''Italian'', ascii ''ita_Latn'') \<in> set demo_choices"
proof -
  have ne: "demo_choices \<noteq> []" and len: "int (length demo_choices) = 3"
    by (simp_all add: demo_choices_def)
  note t1 = rotation_steps_modulo_and_selection_in_list [where options = demo_choices and clk = 1 and last_clk = 0 and dt = 0
      and index = 2 and prompt = "ascii ''Select Lang 1:''" and chosen = "demo_choices ! 2"
      and u = demo_io and sel = demo_selector and initial_index = 0 and script = turn_then_press
      and picked = "(ascii ''Italian'', ascii ''ita_Latn'')" and rest = "[]"
      and u' = "snd (select_one demo_selector (ascii ''Select Lang 1:'') demo_choices 0 demo_io
          turn_then_press)"]
  note t2 = rotation_steps_modulo_and_selection_in_list [where options = demo_choices and clk = 1 and last_clk = 0 and dt = 1
      and index = 0 and prompt = "ascii ''Select Lang 1:''" and chosen = "demo_choices ! 0"
      and u = demo_io]
  have a: "fst (rotation_block (ascii ''Select Lang 1:'') demo_choices 2 (demo_choices ! 2) 0
      demo_io 1 0) = 0"
    using t1 [THEN conjunct1] ne len by simp
  have b: "fst (rotation_block (ascii ''Select Lang 1:'') demo_choices 0 (demo_choices ! 0) 0
      demo_io 1 1) = 2"
    using t2 [THEN conjunct2, THEN conjunct1] ne len by simp
  have c: "(ascii ''Italian'', ascii ''ita_Latn'') \<in> set demo_choices"
    using t1 [THEN conjunct2, THEN conjunct2, THEN conjunct2] by (simp add: demo_turn)
  from ne a b c show ?thesis by (simp add: demo_turn)
qed

lemma writes_with_simps [simp]:
  "writes_with p []" "writes_with p (es @ fs) \<longleftrightarrow> writes_with p es \<and> writes_with p fs"
  "writes_with p (e # es) \<longleftrightarrow> (\<exists>nm. e = LcdWrite p nm) \<and> writes_with p es"
  by (auto simp: writes_with_def)

lemma select_loop_writes:
  assumes "select_loop sel prompt options index chosen last_clk last_sw u script = (res, u')"
  shows "\<exists>es. io_step u u' es \<and> writes_with prompt es"
proof -
  define I where "I = (\<lambda>(i::int) (c::ustr \<times> ustr) (l::int) v.
      \<exists>es. io_step u v es \<and> writes_with prompt es)"
  have "loop_post I script
      (select_loop sel prompt options index chosen last_clk last_sw u script)"
  proof (rule select_loop_rule)
    show "I index chosen last_clk u"
      unfolding I_def using io_step_refl [of u] by (intro exI [of _ "[]"]) simp
  next
    fix i c l v s1 dt
    assume "I i c l v"
    then obtain es where es: "io_step u v es" "writes_with prompt es" unfolding I_def by blast
    obtain i1 c1 l1 v1 where rb:
      "rotation_block prompt options i c l v (level s1 (clk_pin sel)) dt = (i1, c1, l1, v1)"
      by (metis prod_cases4)
    then have "v1 = v \<or> (\<exists>nm. v1 = LCDDisplay_write prompt nm v)"
      by (auto simp: rotation_block_def Let_def split: if_splits)
    then have "I i1 c1 l1 v1"
    proof
      assume "v1 = v"
      with es show ?thesis unfolding I_def by blast
    next
      assume "\<exists>nm. v1 = LCDDisplay_write prompt nm v"
      then obtain nm where "v1 = LCDDisplay_write prompt nm v" by blast
      with io_step_trans [OF es(1) io_step_write [of v prompt nm]] es(2)
      show ?thesis unfolding I_def by (intro exI [of _ "es @ [LcdWrite prompt nm]"]) simp
    qed
    then show "case rotation_block prompt options i c l v (level s1 (clk_pin sel)) dt of
          (i1, c1, l1, v1) \<Rightarrow> I i1 c1 l1 v1"
      by (simp add: rb)
  qed
  then have "\<exists>i c l. I i c l u'"
    unfolding assms loop_post_def by (cases res) auto
  then show ?thesis unfolding I_def by blast
qed

lemma select_loop_no_raise:
  "select_loop sel prompt options index chosen last_clk last_sw u script \<noteq> (Raised e, u')"
proof
  assume a: "select_loop sel prompt options index chosen last_clk last_sw u script = (Raised e, u')"
  have "loop_post (\<lambda>_ _ _ _. True) script
           (select_loop sel prompt options index chosen last_clk last_sw u script)"
    by (rule select_loop_rule) (auto split: prod.splits)
  with a show False by (simp add: loop_post_def)
qed

lemma select_one_writes:
  assumes "select_one sel prompt options init u script = (res, u')"
  shows "\<exists>es. io_step u u' es \<and> writes_with prompt es"
  using assms
proof (cases rule: select_one_outcome)
  case no_clock
  then show ?thesis by (intro exI [of _ "[]"]) simp
next
  case no_options
  then show ?thesis by (intro exI [of _ "[]"]) simp
next
  case early
  then show ?thesis
    by (intro exI [of _ "[LcdWrite prompt (fst (options ! nat (init mod int (length options))))]"])
      simp
next
  case (loop s0 s_clk s_t rest2 s_sw rest4 u1)
  from select_loop_writes [OF loop(5)] obtain es where "io_step u1 u' es" "writes_with prompt es"
    by blast
  with io_step_trans [OF loop(4) this(1)] show ?thesis
    by (intro exI [of _ "[LcdWrite prompt (fst (options ! nat (init mod int (length options))))] @ es"])
      simp
qed

lemma select_one_first_write:
  assumes "select_one sel prompt options init u script = (res, u')"
    and "options \<noteq> []" "script \<noteq> []"
  shows "\<exists>es. events u' = events u
            @ LcdWrite prompt (fst (options ! nat (init mod int (length options)))) # es"
  using assms(1)
proof (cases rule: select_one_outcome)
  case no_clock
  with assms show ?thesis by simp
next
  case no_options
  with assms show ?thesis by simp
next
  case early
  from io_step_events [OF early(3)] show ?thesis by simp
next
  case (loop s0 s_clk s_t rest2 s_sw rest4 u1)
  from select_loop_writes [OF loop(5)] obtain es where "io_step u1 u' es" by blast
  from io_step_events [OF io_step_trans [OF loop(4) this]] show ?thesis by simp
qed

text \<open>
  Claim C10. For a non-empty option list and any integer initial index, the index
  \<open>initial_index mod N\<close> lies in \<open>[0, N)\<close>, the option at it is a member of the list,
  and once \<open>select_one\<close> has read the clock for \<open>clear_scroll\<close> its first effect is the
  display write of the prompt with the name of that option.
\<close>

theorem select_one_starts_at_index_modulo_count:
  "options \<noteq> [] \<longrightarrow>
     0 \<le> initial_index mod int (length options)
     \<and> initial_index mod int (length options) < int (length options)
     \<and> options ! nat (initial_index mod int (length options)) \<in> set options
     \<and> (script \<noteq> [] \<longrightarrow>
          (\<exists>es. events (snd (select_one sel prompt options initial_index u script)) =
             events u
             @ LcdWrite prompt (fst (options ! nat (initial_index mod int (length options)))) # es))"
proof
  assume ne: "options \<noteq> []"
  then have n: "0 < int (length options)" by simp
  have 1: "0 \<le> initial_index mod int (length options)"
    and 2: "initial_index mod int (length options) < int (length options)"
    using n by simp_all
  from 1 2 have 3: "options ! nat (initial_index mod int (length options)) \<in> set options"
    by simp
  have 4: "script \<noteq> [] \<longrightarrow>
          (\<exists>es. events (snd (select_one sel prompt options initial_index u script)) =
             events u
             @ LcdWrite prompt (fst (options ! nat (initial_index mod int (length options)))) # es)"
  proof
    assume s: "script \<noteq> []"
    obtain res u' where r: "select_one sel prompt options initial_index u script = (res, u')"
      by (cases "select_one sel prompt options initial_index u script")
    from select_one_first_write [OF r ne s] show "\<exists>es. events (snd (select_one sel prompt options initial_index u script)) =
             events u
             @ LcdWrite prompt (fst (options ! nat (initial_index mod int (length options)))) # es"
      by (simp add: r)
  qed
  from 1 2 3 4 show "0 \<le> initial_index mod int (length options)
     \<and> initial_index mod int (length options) < int (length options)
     \<and> options ! nat (initial_index mod int (length options)) \<in> set options
     \<and> (script \<noteq> [] \<longrightarrow>
          (\<exists>es. events (snd (select_one sel prompt options initial_index u script)) =
             events u
             @ LcdWrite prompt (fst (options ! nat (initial_index mod int (length options)))) # es))"
    by (intro conjI)
qed

lemma demo_press_last:
  "select_one demo_selector (ascii ''Select Lang 1:'') demo_choices (- 1) demo_io press_only =
     (Returned (ascii ''Spanish'', ascii ''spa_Latn'') [],
      demo_io\<lparr>lcd := demo_lcd\<lparr>scroll_text := [], scroll_offset := 0, scroll_last_time := 0\<rparr>,
        events := [LcdWrite (ascii ''Select Lang 1:'') (ascii ''Spanish'')]\<rparr>)"
  by (simp add: selector_eval)

theorem select_one_starts_at_index_modulo_count_witness:
  "demo_choices \<noteq> [] \<and> press_only \<noteq> []
   \<and> (- 1) mod int (length demo_choices) = 2
   \<and> demo_choices ! nat ((- 1) mod int (length demo_choices)) = (ascii ''Spanish'', ascii ''spa_Latn'')
   \<and> (ascii ''Spanish'', ascii ''spa_Latn'') \<in> set demo_choices
   \<and> events (snd (select_one demo_selector (ascii ''Select Lang 1:'') demo_choices (- 1) demo_io
         press_only)) = [LcdWrite (ascii ''Select Lang 1:'') (ascii ''Spanish'')]"
proof -
  have ne: "demo_choices \<noteq> []" "press_only \<noteq> []"
    and len: "int (length demo_choices) = 3"
    and at: "demo_choices ! 2 = (ascii ''Spanish'', ascii ''spa_Latn'')"
    by (simp_all add: demo_choices_def press_only_def)
  note t = select_one_starts_at_index_modulo_count [where options = demo_choices and initial_index = "- 1" and script = press_only
      and sel = demo_selector and prompt = "ascii ''Select Lang 1:''" and u = demo_io,
      THEN mp, OF ne(1)]
  from t have "demo_choices ! nat ((- 1) mod int (length demo_choices)) \<in> set demo_choices"
    by blast
  then have mem: "(ascii ''Spanish'', ascii ''spa_Latn'') \<in> set demo_choices"
    by (simp add: len at)
  from ne len at mem show ?thesis by (simp add: demo_press_last)
qed

lemma select_one_suffix:
  assumes "select_one sel prompt options init u script = (Returned picked rest, u')"
  shows "suffix rest script"
  using assms
proof (cases rule: select_one_outcome)
  case (loop s0 s_clk s_t rest2 s_sw rest4 u1)
  have "loop_post (\<lambda>_ _ _ _. True) rest4
      (select_loop sel prompt options (init mod int (length options))
           (options ! nat (init mod int (length options)))
           (level s_clk (clk_pin sel)) (level s_sw (sw_pin sel)) u1 rest4)"
    by (rule select_loop_rule) (auto split: prod.splits)
  then have 1: "suffix rest rest4" unfolding loop(5) loop_post_def by simp
  from settle_suffix [OF loop(3)] have 2: "suffix rest4 rest2" by (rule suffix_ConsD)
  have 3: "suffix rest2 script" unfolding loop(2) by (intro suffix_ConsI) simp
  from 1 2 3 show ?thesis by (blast intro: suffix_order.trans)
qed simp_all

lemma select_one_no_rotation:
  assumes "select_one sel prompt options init u script = (Returned picked rest, u')"
    and still: "\<forall>s\<in>set script. level s (clk_pin sel) = k"
  shows "picked = options ! nat (init mod int (length options))"
  using assms(1)
proof (cases rule: select_one_outcome)
  case (loop s0 s_clk s_t rest2 s_sw rest4 u1)
  define c0 where "c0 = options ! nat (init mod int (length options))"
  define i0 where "i0 = init mod int (length options)"
  define I where "I = (\<lambda>(i::int) c l (v::'a io_scheme). c = c0 \<and> l = k)"
  from settle_suffix [OF loop(3)] have "suffix rest4 rest2" by (rule suffix_ConsD)
  then have sub: "set rest4 \<subseteq> set script"
    using set_mono_suffix [of rest4 rest2] unfolding loop(2) by auto
  have k0: "level s_clk (clk_pin sel) = k" using still unfolding loop(2) by simp
  have "loop_post I rest4
      (select_loop sel prompt options i0 c0
           (level s_clk (clk_pin sel)) (level s_sw (sw_pin sel)) u1 rest4)"
  proof (rule select_loop_rule)
    show "I i0 c0 (level s_clk (clk_pin sel)) u1" by (simp add: I_def k0)
  next
    fix i c l v s1 dt
    assume a: "I i c l v" and m: "s1 \<in> set rest4"
    from m sub still have "level s1 (clk_pin sel) = k" by blast
    with a have "rotation_block prompt options i c l v (level s1 (clk_pin sel)) dt = (i, c, l, v)"
      by (simp add: I_def rotation_block_step(3))
    with a show "case rotation_block prompt options i c l v (level s1 (clk_pin sel)) dt of
          (i1, c1, l1, v1) \<Rightarrow> I i1 c1 l1 v1"
      by simp
  qed
  then have "\<exists>i l. I i picked l u'"
    using loop(5) unfolding loop_post_def i0_def c0_def by simp
  then show ?thesis unfolding I_def c0_def by blast
qed simp_all

lemma select_pair_Returned:
  assumes "select_pair sel choices init u script = (Returned (ab, ba, n1, n2) rest, u')"
  shows "\<exists>c1 c2 rest1 u1.
      select_one sel (ascii ''Select Lang 1:'') choices init u script = (Returned (n1, c1) rest1, u1)
      \<and> select_one sel (ascii ''Select Lang 2:'') choices init u1 rest1 = (Returned (n2, c2) rest, u')
      \<and> ab = (c1, c2) \<and> ba = (c2, c1)"
  using assms unfolding select_pair_def
  by (auto elim!: and_then_ReturnedE split: prod.splits)

lemma py_getitem_mod:
  assumes "py_getitem xs i = Some x"
  shows "xs ! nat (i mod int (length xs)) = x"
proof -
  define n where "n = int (length xs)"
  from assms have c: "(0 \<le> i \<and> i < n \<and> x = xs ! nat i) \<or> (i < 0 \<and> 0 \<le> i + n \<and> x = xs ! nat (i + n))"
    by (auto simp: py_getitem_def Let_def n_def split: if_splits)
  then show ?thesis
  proof
    assume "0 \<le> i \<and> i < n \<and> x = xs ! nat i"
    then show ?thesis unfolding n_def [symmetric] by simp
  next
    assume a: "i < 0 \<and> 0 \<le> i + n \<and> x = xs ! nat (i + n)"
    then have "i mod n = (i + n) mod n" by simp
    also have "\<dots> = i + n" using a by (intro mod_pos_pos_trivial) simp_all
    finally show ?thesis using a unfolding n_def [symmetric] by simp
  qed
qed

text \<open>
  Claim C8. When \<open>select_pair\<close> returns, its two \<open>select_one\<close> rounds over the same
  list returned \<open>(name_1, code_1)\<close> and \<open>(name_2, code_2)\<close>, the second round reading
  the script the first left; the forward pair is \<open>(code_1, code_2)\<close> and the reverse pair
  \<open>(code_2, code_1)\<close>. When CLK reads the same level throughout (no rotation), both
  selections are the option at \<open>initial_index mod N\<close>, which is Python's
  \<open>options[initial_index]\<close> wherever that is defined.
\<close>

theorem select_pair_gives_swapped_pairs:
  "(select_pair sel choices initial_index u script = (Returned (ab, ba, n1, n2) rest, u') \<longrightarrow>
      (\<exists>c1 c2 rest1 u1.
         select_one sel (ascii ''Select Lang 1:'') choices initial_index u script
           = (Returned (n1, c1) rest1, u1)
         \<and> select_one sel (ascii ''Select Lang 2:'') choices initial_index u1 rest1
           = (Returned (n2, c2) rest, u')
         \<and> ab = (c1, c2) \<and> ba = (c2, c1)))
   \<and> (select_pair sel choices initial_index u script = (Returned (ab, ba, n1, n2) rest, u')
        \<and> (\<forall>s\<in>set script. level s (clk_pin sel) = k) \<longrightarrow>
      (n1, fst ab) = choices ! nat (initial_index mod int (length choices))
      \<and> (n2, snd ab) = choices ! nat (initial_index mod int (length choices))
      \<and> ba = (snd ab, fst ab))
   \<and> (py_getitem choices initial_index = Some x \<longrightarrow>
        choices ! nat (initial_index mod int (length choices)) = x)"
  (is "(?A1 \<longrightarrow> ?C1) \<and> (?A2 \<longrightarrow> ?C2) \<and> (?A3 \<longrightarrow> ?C3)")
proof -
  have 1: "?A1 \<longrightarrow> ?C1" by (rule impI) (erule select_pair_Returned)
  have 2: "?A2 \<longrightarrow> ?C2"
  proof
    assume a: ?A2
    then have sp: "select_pair sel choices initial_index u script
        = (Returned (ab, ba, n1, n2) rest, u')"
      and still: "\<forall>s\<in>set script. level s (clk_pin sel) = k" by simp_all
    from select_pair_Returned [OF sp] obtain c1 c2 rest1 u1 where
      s1: "select_one sel (ascii ''Select Lang 1:'') choices initial_index u script
           = (Returned (n1, c1) rest1, u1)"
      and s2: "select_one sel (ascii ''Select Lang 2:'') choices initial_index u1 rest1
           = (Returned (n2, c2) rest, u')"
      and ab: "ab = (c1, c2)" "ba = (c2, c1)" by blast
    from set_mono_suffix [OF select_one_suffix [OF s1]] still
    have still1: "\<forall>s\<in>set rest1. level s (clk_pin sel) = k" by blast
    from select_one_no_rotation [OF s1 still] select_one_no_rotation [OF s2 still1] ab
    show ?C2 by simp
  qed
  have 3: "?A3 \<longrightarrow> ?C3" by (rule impI) (erule py_getitem_mod)
  show ?thesis by (rule conjI [OF 1 conjI [OF 2 3]])
qed

lemma demo_pair_pressed:
  "select_pair demo_selector demo_choices 0 demo_io (press_only @ press_only) =
     (Returned ((ascii ''eng_Latn'', ascii ''eng_Latn''), (ascii ''eng_Latn'', ascii ''eng_Latn''),
                ascii ''English'', ascii ''English'') [],
      demo_io\<lparr>lcd := demo_lcd\<lparr>scroll_text := [], scroll_offset := 0, scroll_last_time := 0\<rparr>,
        events := [LcdWrite (ascii ''Select Lang 1:'') (ascii ''English''),
                   LcdWrite (ascii ''Select Lang 2:'') (ascii ''English'')]\<rparr>)"
  by (simp add: select_pair_def selector_eval)

lemma demo_pair_turned:
  "select_pair demo_selector demo_choices 0 demo_io (turn_then_press @ press_only) =
     (Returned ((ascii ''ita_Latn'', ascii ''eng_Latn''), (ascii ''eng_Latn'', ascii ''ita_Latn''),
                ascii ''Italian'', ascii ''English'') [],
      demo_io\<lparr>lcd := demo_lcd\<lparr>scroll_text := [], scroll_offset := 0, scroll_last_time := 0\<rparr>,
        events := [LcdWrite (ascii ''Select Lang 1:'') (ascii ''English''),
                   LcdWrite (ascii ''Select Lang 1:'') (ascii ''Italian''),
                   LcdWrite (ascii ''Select Lang 2:'') (ascii ''English'')]\<rparr>)"
  by (simp add: select_pair_def selector_eval)

theorem select_pair_gives_swapped_pairs_witness:
  "fst (select_pair demo_selector demo_choices 0 demo_io (turn_then_press @ press_only)) =
     Returned ((ascii ''ita_Latn'', ascii ''eng_Latn''), (ascii ''eng_Latn'', ascii ''ita_Latn''),
               ascii ''Italian'', ascii ''English'') []
   \<and> (\<exists>c1 c2 rest1 u1.
         select_one demo_selector (ascii ''Select Lang 1:'') demo_choices 0 demo_io
             (turn_then_press @ press_only) = (Returned (ascii ''Italian'', c1) rest1, u1)
         \<and> fst (select_one demo_selector (ascii ''Select Lang 2:'') demo_choices 0 u1 rest1)
             = Returned (ascii ''English'', c2) []
         \<and> (ascii ''ita_Latn'', ascii ''eng_Latn'') = (c1, c2)
         \<and> (ascii ''eng_Latn'', ascii ''ita_Latn'') = (c2, c1))
   \<and> fst (select_pair demo_selector demo_choices 0 demo_io (press_only @ press_only)) =
     Returned ((ascii ''eng_Latn'', ascii ''eng_Latn''), (ascii ''eng_Latn'', ascii ''eng_Latn''),
               ascii ''English'', ascii ''English'') []
   \<and> list_all (\<lambda>s. level s (clk_pin demo_selector) = 0) (press_only @ press_only)
   \<and> (ascii ''English'', ascii ''eng_Latn'') = demo_choices ! nat (0 mod int (length demo_choices))
   \<and> py_getitem demo_choices 0 = Some (ascii ''English'', ascii ''eng_Latn'')"
proof -
  note t1 = select_pair_gives_swapped_pairs [where sel = demo_selector and choices = demo_choices and initial_index = 0
      and u = demo_io and script = "turn_then_press @ press_only"
      and ab = "(ascii ''ita_Latn'', ascii ''eng_Latn'')"
      and ba = "(ascii ''eng_Latn'', ascii ''ita_Latn'')"
      and ?n1.0 = "ascii ''Italian''" and ?n2.0 = "ascii ''English''" and rest = "[]"
      and u' = "snd (select_pair demo_selector demo_choices 0 demo_io (turn_then_press @ press_only))"]
  note t2 = select_pair_gives_swapped_pairs [where sel = demo_selector and choices = demo_choices and initial_index = 0
      and u = demo_io and script = "press_only @ press_only"
      and ab = "(ascii ''eng_Latn'', ascii ''eng_Latn'')"
      and ba = "(ascii ''eng_Latn'', ascii ''eng_Latn'')"
      and ?n1.0 = "ascii ''English''" and ?n2.0 = "ascii ''English''" and rest = "[]"
      and u' = "snd (select_pair demo_selector demo_choices 0 demo_io (press_only @ press_only))"
      and k = 0 and x = "(ascii ''English'', ascii ''eng_Latn'')"]
  have still: "list_all (\<lambda>s. level s (clk_pin demo_selector) = 0) (press_only @ press_only)"
    by (simp add: press_only_def knob_def demo_selector_def)
  have gi: "py_getitem demo_choices 0 = Some (ascii ''English'', ascii ''eng_Latn'')"
    by (simp add: py_getitem_def demo_choices_def)
  have p1: "select_pair demo_selector demo_choices 0 demo_io (turn_then_press @ press_only) =
      (Returned ((ascii ''ita_Latn'', ascii ''eng_Latn''), (ascii ''eng_Latn'', ascii ''ita_Latn''),
                ascii ''Italian'', ascii ''English'') [],
       snd (select_pair demo_selector demo_choices 0 demo_io (turn_then_press @ press_only)))"
    by (simp add: demo_pair_turned)
  have p2: "select_pair demo_selector demo_choices 0 demo_io (press_only @ press_only) =
      (Returned ((ascii ''eng_Latn'', ascii ''eng_Latn''), (ascii ''eng_Latn'', ascii ''eng_Latn''),
                ascii ''English'', ascii ''English'') [],
       snd (select_pair demo_selector demo_choices 0 demo_io (press_only @ press_only)))"
    by (simp add: demo_pair_pressed)
  from t1 [THEN conjunct1, THEN mp, OF p1] obtain c1 c2 rest1 u1 where
    "select_one demo_selector (ascii ''Select Lang 1:'') demo_choices 0 demo_io
             (turn_then_press @ press_only) = (Returned (ascii ''Italian'', c1) rest1, u1)"
    "select_one demo_selector (ascii ''Select Lang 2:'') demo_choices 0 u1 rest1
             = (Returned (ascii ''English'', c2) [],
                snd (select_pair demo_selector demo_choices 0 demo_io (turn_then_press @ press_only)))"
    "(ascii ''ita_Latn'', ascii ''eng_Latn'') = (c1, c2)"
    "(ascii ''eng_Latn'', ascii ''ita_Latn'') = (c2, c1)" by blast
  then have ex: "\<exists>c1 c2 rest1 u1.
         select_one demo_selector (ascii ''Select Lang 1:'') demo_choices 0 demo_io
             (turn_then_press @ press_only) = (Returned (ascii ''Italian'', c1) rest1, u1)
         \<and> fst (select_one demo_selector (ascii ''Select Lang 2:'') demo_choices 0 u1 rest1)
             = Returned (ascii ''English'', c2) []
         \<and> (ascii ''ita_Latn'', ascii ''eng_Latn'') = (c1, c2)
         \<and> (ascii ''eng_Latn'', ascii ''ita_Latn'') = (c2, c1)"
    by (metis fst_conv)
  from still have ball: "\<forall>s\<in>set (press_only @ press_only). level s (clk_pin demo_selector) = 0"
    by (simp only: list_all_iff)
  from t2 [THEN conjunct2, THEN conjunct1, THEN mp, OF conjI [OF p2 ball]]
  have eng: "(ascii ''English'', ascii ''eng_Latn'') =
      demo_choices ! nat (0 mod int (length demo_choices))" by simp
  have f1: "fst (select_pair demo_selector demo_choices 0 demo_io (turn_then_press @ press_only)) =
     Returned ((ascii ''ita_Latn'', ascii ''eng_Latn''), (ascii ''eng_Latn'', ascii ''ita_Latn''),
               ascii ''Italian'', ascii ''English'') []"
    by (simp add: demo_pair_turned)
  have f2: "fst (select_pair demo_selector demo_choices 0 demo_io (press_only @ press_only)) =
     Returned ((ascii ''eng_Latn'', ascii ''eng_Latn''), (ascii ''eng_Latn'', ascii ''eng_Latn''),
               ascii ''English'', ascii ''English'') []"
    by (simp add: demo_pair_pressed)
  from f1 ex f2 still eng gi show ?thesis by (intro conjI)
qed

section \<open>The main loop (app\_controller.py)\<close>

lemma monitor_append:
  "no_reselect_while_recording r (es @ fs) \<longleftrightarrow>
     no_reselect_while_recording r es \<and> no_reselect_while_recording (recording_after r es) fs"
  by (induction r es rule: no_reselect_while_recording.induct) auto

lemma recording_after_append:
  "recording_after r (es @ fs) = recording_after (recording_after r es) fs"
  by (induction r es rule: recording_after.induct) auto

lemma plain_monitor:
  "list_all plain es \<Longrightarrow> no_reselect_while_recording r es \<and> recording_after r es = r"
  by (induction r es rule: no_reselect_while_recording.induct) (auto simp: plain_def)

lemma calm_monitor:
  "\<forall>e\<in>set es. \<forall>l2. e \<noteq> LcdWrite change_langs l2 \<Longrightarrow> no_reselect_while_recording r es"
  by (induction r es rule: no_reselect_while_recording.induct) auto

lemma idle_monitor:
  "\<forall>e\<in>set es. \<forall>a b c d. e \<noteq> Popen_arecord a b c d \<Longrightarrow>
     no_reselect_while_recording False es \<and> recording_after False es = False"
  by (induction "False" es rule: no_reselect_while_recording.induct) auto

lemma plain_simps [simp]:
  "plain (LcdWrite l1 l2) \<longleftrightarrow> l1 \<noteq> change_langs"
  "plain (LcdScroll w)" "plain LcdClear" "plain (Makedirs d)"
  "\<not> plain (Popen_arecord a b c d)" "\<not> plain (SendSignal sg)"
  "plain (Wait t)" "plain Kill" "plain (Transcribe p)" "plain (Translate x y z)"
  "plain (Synthesize x y)" "plain (PlayWav p)" "plain GpioCleanup"
  by (simp_all add: plain_def)

lemma literal_prompts [simp]:
  "ascii ''Transcribing...'' \<noteq> change_langs" "ascii ''No speech'' \<noteq> change_langs"
  "ascii ''Translating...'' \<noteq> change_langs" "ascii ''Recording...'' \<noteq> change_langs"
  "ascii ''Ready'' \<noteq> change_langs" "ascii ''Shutting down'' \<noteq> change_langs"
  "ascii ''Select Lang 1:'' \<noteq> change_langs" "ascii ''Select Lang 2:'' \<noteq> change_langs"
  by (simp_all add: ascii_def change_langs_def)

lemma header_not_change_langs [simp]: "take 3 a @ [8594] @ take 3 b \<noteq> change_langs"
proof
  assume "take 3 a @ [8594] @ take 3 b = change_langs"
  then have "length (take 3 a @ [8594] @ take 3 b) = length change_langs" by simp
  then show False by (simp add: change_langs_def ascii_def)
qed

lemma set_scroll_text_no_raise:
  "LCDDisplay_set_scroll_text t u script \<noteq> (Raised e, u')"
  by (auto simp: LCDDisplay_set_scroll_text_def Let_def split: list.splits)

lemma clear_scroll_no_raise: "LCDDisplay_clear_scroll u script \<noteq> (Raised e, u')"
  unfolding LCDDisplay_clear_scroll_def by (rule set_scroll_text_no_raise)

lemma tick_scroll_step:
  "LCDDisplay_tick_scroll r u script = (res, u') \<Longrightarrow>
     (\<exists>es. io_step u u' es \<and> list_all plain es) \<and> (\<forall>e. res \<noteq> Raised e)"
proof -
  assume a: "LCDDisplay_tick_scroll r u script = (res, u')"
  then have "u' = u \<or> (\<exists>l w. u' = emit (LcdScroll w) (u\<lparr>lcd := l\<rparr>))"
    by (auto simp: LCDDisplay_tick_scroll_def Let_def split: if_splits list.splits)
  then have 1: "\<exists>es. io_step u u' es \<and> list_all plain es"
  proof
    assume "u' = u"
    then show ?thesis using io_step_refl [of u] by (intro exI [of _ "[]"]) simp
  next
    assume "\<exists>l w. u' = emit (LcdScroll w) (u\<lparr>lcd := l\<rparr>)"
    then obtain l w where "u' = emit (LcdScroll w) (u\<lparr>lcd := l\<rparr>)" by blast
    with io_step_trans [OF io_step_lcd [of u l] io_step_emit [of "u\<lparr>lcd := l\<rparr>" "LcdScroll w"]]
    show ?thesis by (intro exI [of _ "[LcdScroll w]"]) simp
  qed
  from a have 2: "\<forall>e. res \<noteq> Raised e"
    by (auto simp: LCDDisplay_tick_scroll_def Let_def split: if_splits list.splits)
  from 1 2 show ?thesis by blast
qed

lemma io_step_iff: "io_step u u' es \<longleftrightarrow> events u' = events u @ es \<and> io.more u' = io.more u"
proof
  assume "io_step u u' es"
  then show "events u' = events u @ es \<and> io.more u' = io.more u" by (auto simp: io_step_def)
next
  assume a: "events u' = events u @ es \<and> io.more u' = io.more u"
  have "u' = u\<lparr>lcd := lcd u', events := events u @ es\<rparr>"
    using a by (intro io.equality) simp_all
  then show "io_step u u' es" unfolding io_step_def by blast
qed

lemma header_not_change_langs' [simp]: "take 3 a @ 8594 # take 3 b \<noteq> change_langs"
  using header_not_change_langs [of a b] by simp

lemma process_step:
  assumes "TranslationPipeline_process pl wav s t u script = (res, u')"
  shows "quiet u u'" and "res \<noteq> Raised e"
  using assms
  unfolding TranslationPipeline_process_def Let_def and_then_def LCDDisplay_clear_scroll_def
    LCDDisplay_set_scroll_text_def quiet_def io_step_iff
  by (auto split: list.splits option.splits if_splits simp: LCDDisplay_write_def emit_def)

lemma step_ok_refl: "step_ok c (Returned x rest, c)"
  by (simp add: step_ok_def)

lemma step_ok_trans:
  assumes "step_ok c (Returned x rest, c1)" "step_ok c1 out"
  shows "step_ok c out"
proof -
  obtain res c' where out: "out = (res, c')" by (cases out)
  from assms(1) obtain es where es: "events c1 = events c @ es"
      "no_reselect_while_recording (is_recording (recorder c)) es"
      "recording_after (is_recording (recorder c)) es = is_recording (recorder c1)"
    unfolding step_ok_def by auto
  from assms(2) obtain fs where fs: "events c' = events c1 @ fs"
      "no_reselect_while_recording (is_recording (recorder c1)) fs"
      "\<forall>x rest. res = Returned x rest \<longrightarrow>
          recording_after (is_recording (recorder c1)) fs = is_recording (recorder c')"
      "\<forall>m. res \<noteq> Raised (RuntimeError m)"
    unfolding step_ok_def out by auto
  have "events c' = events c @ (es @ fs)" using es(1) fs(1) by simp
  moreover have "no_reselect_while_recording (is_recording (recorder c)) (es @ fs)"
    using es(2,3) fs(2) by (simp add: monitor_append)
  moreover have "\<forall>x rest. res = Returned x rest \<longrightarrow>
      recording_after (is_recording (recorder c)) (es @ fs) = is_recording (recorder c')"
    using es(3) fs(3) by (simp add: recording_after_append)
  ultimately show ?thesis unfolding step_ok_def out using fs(4) by (simp only: prod.case) blast
qed

lemma step_ok_stopped:
  assumes "step_ok c (res, c')" "\<forall>x rest. res \<noteq> Returned x rest"
  shows "step_ok c (and_then (res, c') f)"
proof (cases res)
  case (Returned x rest)
  with assms(2) show ?thesis by simp
next
  case (Raised e)
  with assms(1) show ?thesis by (simp add: and_then_def step_ok_def)
next
  case Interrupted
  with assms(1) show ?thesis by (simp add: and_then_def step_ok_def)
qed

lemma step_ok_and_then:
  assumes "step_ok c m"
    and "\<And>x rest c1. m = (Returned x rest, c1) \<Longrightarrow> step_ok c1 (f x rest c1)"
  shows "step_ok c (and_then m f)"
proof -
  obtain res c' where m: "m = (res, c')" by (cases m)
  show ?thesis
  proof (cases "\<exists>x rest. res = Returned x rest")
    case True
    then obtain x rest where r: "res = Returned x rest" by blast
    have "and_then m f = f x rest c'" by (simp add: m r and_then_def)
    moreover have "step_ok c (f x rest c')"
      using step_ok_trans [of c x rest c'] assms unfolding m r by blast
    ultimately show ?thesis by simp
  next
    case False
    with step_ok_stopped [of c res c' f] assms(1) show ?thesis unfolding m by blast
  qed
qed

lemma quiet_step_ok:
  assumes "quiet c c'" "\<forall>m. res \<noteq> Raised (RuntimeError m)"
  shows "step_ok c (res, c')"
proof -
  from assms(1) obtain es l where es: "c' = c\<lparr>lcd := l, events := events c @ es\<rparr>" "list_all plain es"
    unfolding quiet_def io_step_def by blast
  from es(1) have "events c' = events c @ es" "recorder c' = recorder c" by simp_all
  with plain_monitor [OF es(2)] assms(2) show ?thesis unfolding step_ok_def by auto
qed

lemma start_record_ok: "step_ok c (start_record c script)"
  unfolding step_ok_def start_record_def AudioRecorder_start_def and_then_def
    LCDDisplay_clear_scroll_def LCDDisplay_set_scroll_text_def Let_def
  by (auto split: list.splits simp: LCDDisplay_write_def emit_def is_recording_def)

lemma recorder_stop_ok:
  assumes "AudioRecorder_stop (recorder c) t script = (res, r, evs)"
  shows "step_ok c (res, c\<lparr>recorder := r, events := events c @ evs\<rparr>)"
  using assms unfolding step_ok_def AudioRecorder_stop_def Let_def
  by (auto split: list.splits option.splits if_splits simp: is_recording_def)

lemma stop_record_ok: "step_ok c (stop_record c src_lang tgt_lang script)"
proof (cases "is_recording (recorder c)")
  case False
  then show ?thesis by (simp add: stop_record_def step_ok_refl)
next
  case True
  obtain res r evs where st: "AudioRecorder_stop (recorder c) 3 script = (res, r, evs)"
    by (metis prod_cases3)
  have "step_ok c (and_then (res, c\<lparr>recorder := r, events := events c @ evs\<rparr>)
          (\<lambda>_ rest c1.
             and_then (TranslationPipeline_process (pipeline c1) (wav_path (recorder c1))
                     src_lang tgt_lang c1 rest)
               (\<lambda>_ rest2 c2. (Returned () rest2, c2))))"
  proof (rule step_ok_and_then [OF recorder_stop_ok [OF st]])
    fix x rest c1
    show "step_ok c1 (and_then (TranslationPipeline_process (pipeline c1) (wav_path (recorder c1))
                     src_lang tgt_lang c1 rest) (\<lambda>_ rest2 c2. (Returned () rest2, c2)))"
    proof (rule step_ok_and_then)
      obtain res1 c2 where p: "TranslationPipeline_process (pipeline c1) (wav_path (recorder c1))
                     src_lang tgt_lang c1 rest = (res1, c2)" by (metis surj_pair)
      from process_step [OF p] show "step_ok c1 (TranslationPipeline_process (pipeline c1)
          (wav_path (recorder c1)) src_lang tgt_lang c1 rest)"
        unfolding p by (intro quiet_step_ok) simp_all
    next
      fix y rest2 c2
      show "step_ok c2 (Returned () rest2, c2)" by (rule step_ok_refl)
    qed
  qed
  with True st show ?thesis by (simp add: stop_record_def)
qed

lemma stop_record_with_ok: "step_ok c (stop_record_with c pair script)"
proof (cases pair)
  case None
  then show ?thesis by (simp add: stop_record_with_def step_ok_def)
next
  case (Some p)
  then show ?thesis by (cases p) (simp add: stop_record_with_def stop_record_ok)
qed

lemma quiet_refl: "quiet u u"
  unfolding quiet_def using io_step_refl [of u] by (intro exI [of _ "[]"]) simp

lemma quiet_trans: "quiet u v \<Longrightarrow> quiet v w \<Longrightarrow> quiet u w"
proof -
  assume "quiet u v" "quiet v w"
  then obtain es fs where "io_step u v es" "list_all plain es" "io_step v w fs" "list_all plain fs"
    unfolding quiet_def by blast
  with io_step_trans [of u v es w fs] show "quiet u w"
    unfolding quiet_def by (intro exI [of _ "es @ fs"]) simp
qed

lemma quiet_write: "l1 \<noteq> change_langs \<Longrightarrow> quiet u (LCDDisplay_write l1 l2 u)"
  unfolding quiet_def using io_step_write [of u l1 l2] by (intro exI [of _ "[LcdWrite l1 l2]"]) simp

lemma quiet_emit: "plain e \<Longrightarrow> quiet u (emit e u)"
  unfolding quiet_def using io_step_emit [of u e] by (intro exI [of _ "[e]"]) simp

lemma writes_with_plain: "writes_with p es \<Longrightarrow> p \<noteq> change_langs \<Longrightarrow> list_all plain es"
  by (induction es) auto

lemma select_one_quiet:
  assumes "select_one sel prompt options init u script = (res, u')" "prompt \<noteq> change_langs"
  shows "quiet u u' \<and> (\<forall>m. res \<noteq> Raised (RuntimeError m))"
proof -
  from select_one_writes [OF assms(1)] obtain es where "io_step u u' es" "writes_with prompt es"
    by blast
  with writes_with_plain [OF this(2) assms(2)] have 1: "quiet u u'" unfolding quiet_def by blast
  from assms(1) have "\<forall>m. res \<noteq> Raised (RuntimeError m)"
  proof (cases rule: select_one_outcome)
    case (loop s0 s_clk s_t rest2 s_sw rest4 u1)
    with select_loop_no_raise show ?thesis by blast
  qed simp_all
  with 1 show ?thesis by simp
qed

lemma and_then_cases:
  assumes "and_then m f = (res, s')"
  obtains (continued) x rest s where "m = (Returned x rest, s)" "f x rest s = (res, s')"
    | (stopped) r where "m = (r, s')" "\<forall>x rest. r \<noteq> Returned x rest"
           "\<forall>e. r = Raised e \<longrightarrow> res = Raised e"
           "r = Interrupted \<longrightarrow> res = Interrupted"
  using assms by (auto simp: and_then_def split: prod.splits result.splits)

lemma select_pair_quiet:
  assumes "select_pair sel choices init u script = (res, u')"
  shows "quiet u u' \<and> (\<forall>m. res \<noteq> Raised (RuntimeError m))"
  using assms unfolding select_pair_def
proof (cases rule: and_then_cases)
  case (continued x rest s)
  obtain n1 c1 where x: "x = (n1, c1)" by (cases x)
  from select_one_quiet [OF continued(1)] have q1: "quiet u s" by simp
  from continued(2) show ?thesis unfolding x prod.case
  proof (cases rule: and_then_cases)
    case (continued y rest' s2)
    from select_one_quiet [OF continued(1)] have "quiet s s2" by simp
    with q1 continued(2) show ?thesis by (auto split: prod.splits intro: quiet_trans)
  next
    case (stopped r)
    from select_one_quiet [OF stopped(1)] have "quiet s u'" "\<forall>m. r \<noteq> Raised (RuntimeError m)"
      by simp_all
    with q1 stopped(2,3,4) show ?thesis by (cases r) (auto intro: quiet_trans)
  qed
next
  case (stopped r)
  from select_one_quiet [OF stopped(1)] have "quiet u u'" "\<forall>m. r \<noteq> Raised (RuntimeError m)"
    by simp_all
  with stopped(2,3,4) show ?thesis by (cases r) auto
qed

lemma idle_step_ok:
  assumes "\<not> is_recording (recorder c)" "events c' = events c @ es" "recorder c' = recorder c"
    and "\<forall>e\<in>set es. \<forall>a b c d. e \<noteq> Popen_arecord a b c d"
    and "\<forall>m. res \<noteq> Raised (RuntimeError m)"
  shows "step_ok c (res, c')"
  using assms idle_monitor [OF assms(4)] unfolding step_ok_def by auto

lemma plain_no_popen: "list_all plain es \<Longrightarrow> \<forall>e\<in>set es. \<forall>a b c d. e \<noteq> Popen_arecord a b c d"
  by (auto simp: list_all_iff)

lemma quiet_app:
  fixes c c' :: app_controller
  assumes "quiet c c'"
  obtains es where "events c' = events c @ es" "list_all plain es" "recorder c' = recorder c"
proof -
  from assms obtain es l where es: "c' = c\<lparr>lcd := l, events := events c @ es\<rparr>" "list_all plain es"
    unfolding quiet_def io_step_def by blast
  from es(1) have "events c' = events c @ es" "recorder c' = recorder c" by simp_all
  with es(2) that show ?thesis by blast
qed

lemma reselect_languages_ok:
  assumes "\<not> is_recording (recorder c)"
  shows "step_ok c (reselect_languages c script)"
proof -
  obtain res c' where r: "reselect_languages c script = (res, c')" by (metis surj_pair)
  define c0 where "c0 = LCDDisplay_write (ascii ''Change langs'') (ascii ''Rotate + press'') c"
  have c0: "events c0 = events c @ [LcdWrite (ascii ''Change langs'') (ascii ''Rotate + press'')]"
      "recorder c0 = recorder c"
    by (simp_all add: c0_def LCDDisplay_write_def emit_def)
  have "\<exists>es. events c' = events c0 @ es \<and> list_all plain es \<and> recorder c' = recorder c0
        \<and> (\<forall>m. res \<noteq> Raised (RuntimeError m))"
    using r unfolding reselect_languages_def c0_def [symmetric]
  proof (cases rule: and_then_cases)
    case (continued x rest s)
    from select_pair_quiet [OF continued(1)] have "quiet c0 s" by simp
    then obtain es where es: "events s = events c0 @ es" "list_all plain es"
        "recorder s = recorder c0" by (rule quiet_app)
    from continued(2) have "events c' = events s @ [LcdWrite (ascii ''Ready'') (ascii ''Hold button'')]"
        "recorder c' = recorder s" "\<forall>m. res \<noteq> Raised (RuntimeError m)"
      by (auto split: prod.splits simp: LCDDisplay_write_def emit_def)
    with es show ?thesis
      by (intro exI [of _ "es @ [LcdWrite (ascii ''Ready'') (ascii ''Hold button'')]"]) simp
  next
    case (stopped r0)
    from select_pair_quiet [OF stopped(1)] have q: "quiet c0 c'"
        and nr: "\<forall>m. r0 \<noteq> Raised (RuntimeError m)" by simp_all
    from q obtain es where es: "events c' = events c0 @ es" "list_all plain es"
        "recorder c' = recorder c0" by (rule quiet_app)
    from nr stopped(2,3,4) have "\<forall>m. res \<noteq> Raised (RuntimeError m)" by (cases r0) auto
    with es show ?thesis by blast
  qed
  then obtain es where es: "events c' = events c0 @ es" "list_all plain es"
      "recorder c' = recorder c0" "\<forall>m. res \<noteq> Raised (RuntimeError m)" by blast
  have "step_ok c (res, c')"
  proof (rule idle_step_ok [OF assms])
    show "events c' = events c @ (LcdWrite (ascii ''Change langs'') (ascii ''Rotate + press'') # es)"
      using es(1) c0(1) by simp
    show "recorder c' = recorder c" using es(3) c0(2) by simp
    show "\<forall>e\<in>set (LcdWrite (ascii ''Change langs'') (ascii ''Rotate + press'') # es).
        \<forall>a b c d. e \<noteq> Popen_arecord a b c d"
      using plain_no_popen [OF es(2)] by simp
    show "\<forall>m. res \<noteq> Raised (RuntimeError m)" by (rule es(4))
  qed
  then show ?thesis by (simp add: r)
qed

lemma step_ok_cong:
  assumes "events c1 = events c" "recorder c1 = recorder c" "step_ok c1 out"
  shows "step_ok c out"
  using assms unfolding step_ok_def by (auto split: prod.splits)

lemma button_a_phase_ok: "step_ok c (button_a_phase c script)"
proof (cases "read_poll (pin (btn_a c)) script")
  case None
  then show ?thesis by (simp add: button_a_phase_def step_ok_def)
next
  case (Some p)
  obtain now raw rest where p: "p = (now, raw, rest)" by (cases p)
  obtain ev b where e: "DebouncedButton_poll (btn_a c) now raw = (ev, b)" by (metis surj_pair)
  have "step_ok (c\<lparr>btn_a := b\<rparr>) (button_a_phase c script)"
    using Some p e
    by (simp add: button_a_phase_def Let_def start_record_ok stop_record_with_ok step_ok_refl)
  then show ?thesis by (rule step_ok_cong [rotated 2]) simp_all
qed

lemma button_b_phase_ok: "step_ok c (button_b_phase c script)"
proof (cases "read_poll (pin (btn_b c)) script")
  case None
  then show ?thesis by (simp add: button_b_phase_def step_ok_def)
next
  case (Some p)
  obtain now raw rest where p: "p = (now, raw, rest)" by (cases p)
  obtain ev b where e: "DebouncedButton_poll (btn_b c) now raw = (ev, b)" by (metis surj_pair)
  have "step_ok (c\<lparr>btn_b := b\<rparr>) (button_b_phase c script)"
    using Some p e
    by (simp add: button_b_phase_def Let_def start_record_ok stop_record_with_ok step_ok_refl)
  then show ?thesis by (rule step_ok_cong [rotated 2]) simp_all
qed

lemma poll_disabled_false: "fst (LongPressDetector_poll d now raw False) = False"
  by (simp add: LongPressDetector_poll_def Let_def split: prod.splits)

lemma longpress_phase_recording:
  assumes "is_recording (recorder c)"
  shows "longpress_phase c script =
     (case read_poll (pin (lang_longpress c)) script of
        None \<Rightarrow> (Interrupted, c)
      | Some (now, raw, rest) \<Rightarrow>
          (Returned () rest,
           c\<lparr>lang_longpress := snd (LongPressDetector_poll (lang_longpress c) now raw False)\<rparr>))"
proof (cases "read_poll (pin (lang_longpress c)) script")
  case None
  then show ?thesis by (simp add: longpress_phase_def)
next
  case (Some p)
  obtain now raw rest where p: "p = (now, raw, rest)" by (cases p)
  obtain lp d where e: "LongPressDetector_poll (lang_longpress c) now raw False = (lp, d)"
    by (metis surj_pair)
  with poll_disabled_false [of "lang_longpress c" now raw] have "lp = False" by simp
  with Some p e assms show ?thesis by (simp add: longpress_phase_def)
qed

lemma longpress_phase_ok: "step_ok c (longpress_phase c script)"
proof (cases "read_poll (pin (lang_longpress c)) script")
  case None
  then show ?thesis by (simp add: longpress_phase_def step_ok_def)
next
  case (Some p)
  obtain now raw rest where p: "p = (now, raw, rest)" by (cases p)
  obtain lp d where e: "LongPressDetector_poll (lang_longpress c) now raw
      (\<not> is_recording (recorder c)) = (lp, d)" by (metis surj_pair)
  have "step_ok (c\<lparr>lang_longpress := d\<rparr>) (longpress_phase c script)"
  proof (cases lp)
    case False
    with Some p e show ?thesis by (simp add: longpress_phase_def step_ok_refl)
  next
    case True
    have "\<not> is_recording (recorder c)"
    proof
      assume "is_recording (recorder c)"
      with e poll_disabled_false [of "lang_longpress c" now raw] True show False by simp
    qed
    then have "step_ok (c\<lparr>lang_longpress := d\<rparr>) (reselect_languages (c\<lparr>lang_longpress := d\<rparr>) rest)"
      by (intro reselect_languages_ok) simp
    with Some p e True show ?thesis by (simp add: longpress_phase_def)
  qed
  then show ?thesis by (rule step_ok_cong [rotated 2]) simp_all
qed

lemma tick_scroll_ok: "step_ok c (LCDDisplay_tick_scroll r c script)"
proof -
  obtain res c' where t: "LCDDisplay_tick_scroll r c script = (res, c')" by (metis surj_pair)
  from tick_scroll_step [OF t] show ?thesis
    unfolding t by (intro quiet_step_ok) (simp_all add: quiet_def)
qed

lemma iteration_ok: "step_ok c (iteration c script)"
  unfolding iteration_def
  by (intro step_ok_and_then button_a_phase_ok button_b_phase_ok longpress_phase_ok tick_scroll_ok)

lemma main_loop_ok:
  "main_loop c script = (h, c') \<Longrightarrow>
     (\<exists>es. events c' = events c @ es \<and> no_reselect_while_recording (is_recording (recorder c)) es)
     \<and> (\<forall>m. h \<noteq> Exception (RuntimeError m))"
proof (induction c script rule: main_loop.induct)
  case (1 c script)
  obtain res c1 where it: "iteration c script = (res, c1)" by (metis surj_pair)
  from iteration_ok [of c script] obtain es where es: "events c1 = events c @ es"
      "no_reselect_while_recording (is_recording (recorder c)) es"
      "\<forall>x rest. res = Returned x rest \<longrightarrow>
          recording_after (is_recording (recorder c)) es = is_recording (recorder c1)"
      "\<forall>m. res \<noteq> Raised (RuntimeError m)"
    unfolding it step_ok_def by auto
  show ?case
  proof (cases res)
    case (Returned x rest)
    with 1(2) it have ml: "main_loop c1 rest = (h, c')" by (simp add: main_loop.simps [of c script])
    from 1(1) [OF it [symmetric] Returned ml] obtain fs where fs: "events c' = events c1 @ fs"
        "no_reselect_while_recording (is_recording (recorder c1)) fs"
        "\<forall>m. h \<noteq> Exception (RuntimeError m)" by blast
    have "events c' = events c @ (es @ fs)" using es(1) fs(1) by simp
    moreover have "no_reselect_while_recording (is_recording (recorder c)) (es @ fs)"
      using es(2,3) fs(2) Returned by (simp add: monitor_append)
    ultimately show ?thesis using fs(3) by blast
  next
    case (Raised e)
    with 1(2) it have "h = Exception e" "c' = c1" by (simp_all add: main_loop.simps [of c script])
    with es Raised show ?thesis by blast
  next
    case Interrupted
    with 1(2) it have "h = KeyboardInterrupt" "c' = c1" by (simp_all add: main_loop.simps [of c script])
    with es show ?thesis by blast
  qed
qed

lemma calm_simps [simp]:
  "calm []" "calm (es @ fs) \<longleftrightarrow> calm es \<and> calm fs"
  "calm (e # es) \<longleftrightarrow> (case e of LcdWrite l1 _ \<Rightarrow> l1 \<noteq> change_langs | _ \<Rightarrow> True) \<and> calm es"
  by (simp_all add: calm_def)

lemma calm_no_reselect: "calm es \<Longrightarrow> no_reselect_while_recording r es"
  by (induction r es rule: no_reselect_while_recording.induct) auto

lemma plain_calm: "list_all plain es \<Longrightarrow> calm es"
  by (induction es) (auto simp: plain_def split: event.splits)

lemma recorder_stop_calm: "AudioRecorder_stop r t script = (res, r', evs) \<Longrightarrow> calm evs"
  unfolding AudioRecorder_stop_def Let_def
  by (auto split: list.splits option.splits if_splits)

lemma stop_record_calm:
  assumes "stop_record c src_lang tgt_lang script = (res, c')"
  shows "\<exists>es. events c' = events c @ es \<and> calm es"
proof (cases "is_recording (recorder c)")
  case False
  with assms show ?thesis by (simp add: stop_record_def)
next
  case True
  obtain res0 r evs where st: "AudioRecorder_stop (recorder c) 3 script = (res0, r, evs)"
    by (metis prod_cases3)
  define c1 where "c1 = c\<lparr>recorder := r, events := events c @ evs\<rparr>"
  have e1: "events c1 = events c @ evs" by (simp add: c1_def)
  from assms True st have "and_then (res0, c1)
          (\<lambda>_ rest c1.
             and_then (TranslationPipeline_process (pipeline c1) (wav_path (recorder c1))
                     src_lang tgt_lang c1 rest)
               (\<lambda>_ rest2 c2. (Returned () rest2, c2))) = (res, c')"
    by (simp add: stop_record_def c1_def)
  then have "quiet c1 c'"
  proof (cases rule: and_then_cases)
    case (continued x rest s)
    from continued(1) have s: "s = c1" by simp
    from continued(2) show ?thesis unfolding s
    proof (cases rule: and_then_cases)
      case (continued y rest' s2)
      with process_step(1) [OF continued(1)] show ?thesis by simp
    next
      case (stopped r0)
      from process_step(1) [OF stopped(1)] show ?thesis .
    qed
  next
    case (stopped r0)
    then show ?thesis by (simp add: quiet_refl)
  qed
  then obtain ps where "events c' = events c1 @ ps" "list_all plain ps" by (rule quiet_app)
  with e1 recorder_stop_calm [OF st] plain_calm [of ps] show ?thesis
    by (intro exI [of _ "evs @ ps"]) simp
qed

lemma stop_record_with_calm:
  assumes "stop_record_with c pair script = (res, c')"
  shows "\<exists>es. events c' = events c @ es \<and> calm es"
proof (cases pair)
  case None
  with assms show ?thesis by (simp add: stop_record_with_def)
next
  case (Some p)
  obtain a b where "p = (a, b)" by (cases p)
  with Some assms stop_record_calm [of c a b script res c'] show ?thesis
    by (simp add: stop_record_with_def)
qed

lemma shutdown_calm:
  "\<exists>es. events (LCDDisplay_shutdown (ascii ''Shutting down'') [] (emit GpioCleanup c))
        = events c @ es \<and> calm es"
  by (simp add: LCDDisplay_shutdown_def LCDDisplay_write_def emit_def)

lemma cleanup_calm:
  assumes "cleanup c after = (res, c')"
  shows "\<exists>es. events c' = events c @ es \<and> calm es"
proof -
  define m where "m = (if is_recording (recorder c) then stop_record_with c (lang_a_to_b c) after
               else (Returned () after, c))"
  have m: "\<And>r s. m = (r, s) \<Longrightarrow> \<exists>es. events s = events c @ es \<and> calm es"
    unfolding m_def using stop_record_with_calm [of c "lang_a_to_b c" after]
    by (auto split: if_splits)
  from assms have "and_then m (\<lambda>_ rest c1.
          (Returned () rest,
           LCDDisplay_shutdown (ascii ''Shutting down'') [] (emit GpioCleanup c1))) = (res, c')"
    by (simp add: cleanup_def m_def)
  then show ?thesis
  proof (cases rule: and_then_cases)
    case (continued x rest s)
    from m [OF continued(1)] obtain es where es: "events s = events c @ es" "calm es" by blast
    from shutdown_calm [of s] continued(2) obtain fs where "events c' = events s @ fs" "calm fs"
      by auto
    with es show ?thesis by (intro exI [of _ "es @ fs"]) simp
  next
    case (stopped r)
    from m [OF stopped(1)] show ?thesis .
  qed
qed

lemma cleanup_no_runtime_error: "cleanup c after \<noteq> (Raised (RuntimeError m), c')"
proof
  assume a: "cleanup c after = (Raised (RuntimeError m), c')"
  have "step_ok c (if is_recording (recorder c) then stop_record_with c (lang_a_to_b c) after
               else (Returned () after, c))"
    by (simp add: stop_record_with_ok step_ok_refl)
  from a show False unfolding cleanup_def
  proof (cases rule: and_then_cases)
    case (continued x rest s)
    then show ?thesis by simp
  next
    case (stopped r)
    from stopped(3,4,2) have "r = Raised (RuntimeError m)" by (cases r) auto
    with stopped(1) stop_record_with_ok [of c "lang_a_to_b c" after] show False
      by (auto simp: step_ok_def split: if_splits)
  qed
qed

lemma run_cases:
  assumes "run c script after = (res, c')"
  obtains (unselected) "lang_a_to_b c = None \<or> lang_b_to_a c = None" "res = Raised not_selected" "c' = c"
    | (selected) h c1 r where "lang_a_to_b c \<noteq> None" "lang_b_to_a c \<noteq> None"
        "main_loop (show_ready c) script = (h, c1)" "cleanup c1 after = (r, c')"
        "h = KeyboardInterrupt \<longrightarrow> res = r"
        "\<forall>e. h = Exception e \<longrightarrow> (res = Raised e \<and> (\<exists>x rest. r = Returned x rest)) \<or> (res = r \<and> (\<forall>x rest. r \<noteq> Returned x rest))"
proof (cases "lang_a_to_b c = None \<or> lang_b_to_a c = None")
  case True
  with assms have "res = Raised not_selected" "c' = c" by (auto simp: run_def)
  with True show ?thesis by (intro unselected)
next
  case False
  obtain h c1 where ml: "main_loop (show_ready c) script = (h, c1)" by (metis surj_pair)
  obtain r c2 where cl: "cleanup c1 after = (r, c2)" by (metis surj_pair)
  show ?thesis
  proof (cases h)
    case KeyboardInterrupt
    with assms False ml cl have rc: "res = r" "c' = c2" by (simp_all add: run_def)
    show ?thesis
    proof (rule selected)
      show "lang_a_to_b c \<noteq> None" "lang_b_to_a c \<noteq> None" using False by simp_all
      show "main_loop (show_ready c) script = (h, c1)" by (rule ml)
      show "cleanup c1 after = (r, c')" using cl rc by simp
      show "h = KeyboardInterrupt \<longrightarrow> res = r" using rc by simp
      show "\<forall>e. h = Exception e \<longrightarrow> (res = Raised e \<and> (\<exists>x rest. r = Returned x rest))
          \<or> (res = r \<and> (\<forall>x rest. r \<noteq> Returned x rest))"
        using KeyboardInterrupt by simp
    qed
  next
    case (Exception e)
    with assms False ml cl have a: "and_then (r, c2) (\<lambda>_ _ c2. (Raised e, c2)) = (res, c')"
      by (simp add: run_def)
    then have rc: "c' = c2" "(res = Raised e \<and> (\<exists>x rest. r = Returned x rest))
        \<or> (res = r \<and> (\<forall>x rest. r \<noteq> Returned x rest))"
      by (cases r; auto simp: and_then_def)+
    show ?thesis
    proof (rule selected)
      show "lang_a_to_b c \<noteq> None" "lang_b_to_a c \<noteq> None" using False by simp_all
      show "main_loop (show_ready c) script = (h, c1)" by (rule ml)
      show "cleanup c1 after = (r, c')" using cl rc by simp
      show "h = KeyboardInterrupt \<longrightarrow> res = r" using Exception by simp
      show "\<forall>e. h = Exception e \<longrightarrow> (res = Raised e \<and> (\<exists>x rest. r = Returned x rest))
          \<or> (res = r \<and> (\<forall>x rest. r \<noteq> Returned x rest))"
        using Exception rc(2) by simp
    qed
  qed
qed

lemma run_no_reselect:
  assumes "run c script after = (res, c')"
  shows "\<exists>es. events c' = events c @ es
           \<and> no_reselect_while_recording (is_recording (recorder c)) es"
  using assms
proof (cases rule: run_cases)
  case unselected
  then show ?thesis by simp
next
  case (selected h c1 r)
  define c0 where "c0 = show_ready c"
  have c0: "events c0 = events c @ [LcdWrite (ascii ''Ready'') (ascii ''Hold button'')]"
      "recorder c0 = recorder c"
    by (simp_all add: c0_def show_ready_def LCDDisplay_write_def emit_def)
  from main_loop_ok [OF selected(3)] obtain es where es: "events c1 = events c0 @ es"
      "no_reselect_while_recording (is_recording (recorder c0)) es"
    unfolding c0_def by blast
  from cleanup_calm [OF selected(4)] obtain fs where fs: "events c' = events c1 @ fs" "calm fs"
    by blast
  have "events c' = events c @ (LcdWrite (ascii ''Ready'') (ascii ''Hold button'') # es @ fs)"
    using c0(1) es(1) fs(1) by simp
  moreover have "no_reselect_while_recording (is_recording (recorder c))
      (LcdWrite (ascii ''Ready'') (ascii ''Hold button'') # es @ fs)"
    using es(2) c0(2) calm_no_reselect [OF fs(2)] by (simp add: monitor_append)
  ultimately show ?thesis by blast
qed

lemma run_selected_no_runtime_error:
  assumes "lang_a_to_b c \<noteq> None" "lang_b_to_a c \<noteq> None"
  shows "fst (run c script after) \<noteq> Raised (RuntimeError m)"
proof
  assume a: "fst (run c script after) = Raised (RuntimeError m)"
  obtain res c' where r: "run c script after = (res, c')" by (metis surj_pair)
  from r show False
  proof (cases rule: run_cases)
    case unselected
    with assms show ?thesis by auto
  next
    case (selected h c1 r0)
    from main_loop_ok [OF selected(3)] have h: "\<forall>m. h \<noteq> Exception (RuntimeError m)" by simp
    from cleanup_no_runtime_error [of c1 after m c'] selected(4)
    have r0: "r0 \<noteq> Raised (RuntimeError m)" by auto
    from a r have "res = Raised (RuntimeError m)" by simp
    with selected(5,6) h r0 show False by (cases h) auto
  qed
qed

lemma startup_selects:
  assumes "select_languages_startup c0 script0 = (Returned () rest, c)"
  shows "lang_a_to_b c \<noteq> None \<and> lang_b_to_a c \<noteq> None"
  using assms unfolding select_languages_startup_def
  by (auto elim!: and_then_ReturnedE split: prod.splits)

lemmas app_eval = AppController_init_def demo_button_def demo_longpress_def demo_app_def
  english_def held_while_recording_def demo_recorder_def demo_lcd_def demo_selector_def
  demo_choices_def DebouncedButton_init_def LongPressDetector_init_def reading_def
  demo_sample_def demo_services_def

lemma demo_startup:
  "select_languages_startup demo_app (press_only @ press_only) =
     (Returned () [],
      demo_app\<lparr>lcd := demo_lcd\<lparr>scroll_text := [], scroll_offset := 0, scroll_last_time := 0\<rparr>,
        events := [LcdWrite (ascii ''Select Lang 1:'') (ascii ''English''),
                   LcdWrite (ascii ''Select Lang 2:'') (ascii ''English'')],
        lang_a_to_b := Some english, lang_b_to_a := Some english,
        name_1 := Some (ascii ''English''), name_2 := Some (ascii ''English'')\<rparr>)"
  by (simp add: select_languages_startup_def select_pair_def selector_eval app_eval)

lemma demo_held_would_fire:
  "fst (LongPressDetector_poll (lang_longpress held_while_recording) 10 0 True) = True"
  by (simp add: app_eval LongPressDetector_poll_def update_stable_def track_raw_def
      is_pressed_level_def Let_def fsub_exact [of 0] on_grid_def)

lemma demo_iteration:
  "iteration held_while_recording (replicate 6 (reading 10 0)) =
     (Returned () [], held_while_recording\<lparr>lang_longpress :=
         demo_longpress\<lparr>raw_last := 0, stable := 0\<rparr>\<rparr>)"
  by (simp add: iteration_def button_a_phase_def button_b_phase_def longpress_phase_def
      read_poll_def and_then_def DebouncedButton_poll_def LongPressDetector_poll_def
      update_stable_def track_raw_def is_pressed_level_def is_recording_def
      LCDDisplay_tick_scroll_def Let_def app_eval numeral_eq_Suc)

lemma iteration_polls:
  assumes "button_a_phase c script = (Returned () rest1, c1)"
    and "button_b_phase c1 rest1 = (Returned () rest2, c2)"
    and "read_poll (pin (lang_longpress c2)) rest2 = Some (now, raw, rest3)"
  shows "iteration c script =
     and_then
       (case LongPressDetector_poll (lang_longpress c2) now raw (\<not> is_recording (recorder c2)) of
          (long_pressed, d) \<Rightarrow>
            if long_pressed then reselect_languages (c2\<lparr>lang_longpress := d\<rparr>) rest3
            else (Returned () rest3, c2\<lparr>lang_longpress := d\<rparr>))
       (\<lambda>_ rest4 c4. LCDDisplay_tick_scroll (is_recording (recorder c4)) c4 rest4)"
  using assms by (simp add: iteration_def and_then_def longpress_phase_def Let_def split: prod.splits)

lemma demo_run:
  "run held_while_recording (replicate 6 (reading 10 0)) demo_after =
     (Returned () [],
      held_while_recording\<lparr>lcd := demo_lcd\<lparr>scroll_last_time := 14\<rparr>,
        events := [LcdWrite (ascii ''Ready'') (ascii ''Hold button''),
                   SendSignal SIGINT, Wait (Some 3),
                   LcdWrite (ascii ''Transcribing...'') [],
                   Transcribe (ascii ''audio_files/speech.wav''),
                   LcdWrite (ascii ''No speech'') (ascii ''Try again''),
                   GpioCleanup, LcdWrite (ascii ''Shutting down'') [], LcdClear],
        recorder := demo_recorder None None,
        lang_longpress := demo_longpress\<lparr>raw_last := 0, stable := 0\<rparr>\<rparr>)"
proof -
  define c0 where "c0 = show_ready held_while_recording"
  define c1 where "c1 = c0\<lparr>lang_longpress := demo_longpress\<lparr>raw_last := 0, stable := 0\<rparr>\<rparr>"
  have it: "iteration c0 (replicate 6 (reading 10 0)) = (Returned () [], c1)"
    unfolding c0_def c1_def
    by (simp add: iteration_def button_a_phase_def button_b_phase_def longpress_phase_def
      read_poll_def and_then_def DebouncedButton_poll_def LongPressDetector_poll_def
      update_stable_def track_raw_def is_pressed_level_def is_recording_def
      LCDDisplay_tick_scroll_def Let_def app_eval numeral_eq_Suc show_ready_def
      LCDDisplay_write_def emit_def)
  have it2: "iteration c1 [] = (Interrupted, c1)"
    by (simp add: iteration_def button_a_phase_def read_poll_def and_then_def)
  have ml: "main_loop c0 (replicate 6 (reading 10 0)) = (KeyboardInterrupt, c1)"
    by (simp add: main_loop.simps [of c0] main_loop.simps [of c1] it it2)
  have cl: "cleanup c1 demo_after = (Returned () [],
      held_while_recording\<lparr>lcd := demo_lcd\<lparr>scroll_last_time := 14\<rparr>,
        events := [LcdWrite (ascii ''Ready'') (ascii ''Hold button''),
                   SendSignal SIGINT, Wait (Some 3),
                   LcdWrite (ascii ''Transcribing...'') [],
                   Transcribe (ascii ''audio_files/speech.wav''),
                   LcdWrite (ascii ''No speech'') (ascii ''Try again''),
                   GpioCleanup, LcdWrite (ascii ''Shutting down'') [], LcdClear],
        recorder := demo_recorder None None,
        lang_longpress := demo_longpress\<lparr>raw_last := 0, stable := 0\<rparr>\<rparr>)"
    unfolding c1_def c0_def
    by (simp add: cleanup_def stop_record_with_def stop_record_def AudioRecorder_stop_def
      TranslationPipeline_process_def LCDDisplay_clear_scroll_def LCDDisplay_set_scroll_text_def
      LCDDisplay_shutdown_def LCDDisplay_write_def emit_def and_then_def is_recording_def
      wav_path_def path_join_def Let_def show_ready_def demo_after_def app_eval ascii_def)
  have "lang_a_to_b held_while_recording \<noteq> None \<and> lang_b_to_a held_while_recording \<noteq> None"
    by (simp add: held_while_recording_def)
  then show ?thesis
    unfolding run_def c0_def [symmetric] by (simp add: ml cl)
qed

lemma demo_run_selected:
  "run demo_selected [] [] =
     (Returned () [],
      demo_selected\<lparr>events := events demo_selected @
         [LcdWrite (ascii ''Ready'') (ascii ''Hold button''), GpioCleanup,
          LcdWrite (ascii ''Shutting down'') [], LcdClear]\<rparr>)"
proof -
  have it: "iteration (show_ready demo_selected) [] = (Interrupted, show_ready demo_selected)"
    by (simp add: iteration_def button_a_phase_def read_poll_def and_then_def)
  have ml: "main_loop (show_ready demo_selected) [] = (KeyboardInterrupt, show_ready demo_selected)"
    by (simp add: main_loop.simps [of "show_ready demo_selected"] it)
  have cl: "cleanup (show_ready demo_selected) [] = (Returned () [],
      demo_selected\<lparr>events := events demo_selected @
         [LcdWrite (ascii ''Ready'') (ascii ''Hold button''), GpioCleanup,
          LcdWrite (ascii ''Shutting down'') [], LcdClear]\<rparr>)"
    by (simp add: cleanup_def LCDDisplay_shutdown_def LCDDisplay_write_def emit_def and_then_def
        is_recording_def show_ready_def demo_selected_def app_eval)
  have "lang_a_to_b demo_selected \<noteq> None \<and> lang_b_to_a demo_selected \<noteq> None"
    by (simp add: demo_selected_def)
  then show ?thesis unfolding run_def by (simp add: ml cl)
qed

text \<open>
  Claim C7. \<open>run\<close> on a controller one of whose language pairs is \<open>None\<close>, in
  particular on a freshly constructed one, raises the \<open>RuntimeError\<close> of its first
  statement and leaves the controller as it was, whatever the environment would have
  answered: nothing is read and nothing is written, so no iteration of the loop runs.
  After \<open>select_languages_startup\<close> has returned both pairs are set, and \<open>run\<close> does
  not raise that error, nor any other \<open>RuntimeError\<close>.
\<close>

theorem run_requires_selected_languages:
  "(lang_a_to_b c = None \<or> lang_b_to_a c = None \<longrightarrow>
      run c script after = (Raised not_selected, c))
   \<and> run (AppController_init l r p a b lp sel choices) script after
        = (Raised not_selected, AppController_init l r p a b lp sel choices)
   \<and> (select_languages_startup c0 script0 = (Returned () rest, c1) \<longrightarrow>
        lang_a_to_b c1 \<noteq> None \<and> lang_b_to_a c1 \<noteq> None
        \<and> (\<forall>m. fst (run c1 script after) \<noteq> Raised (RuntimeError m)))
   \<and> (lang_a_to_b c2 \<noteq> None \<and> lang_b_to_a c2 \<noteq> None \<longrightarrow>
        fst (run c2 script after) \<noteq> Raised not_selected)"
  (is "(?A1 \<longrightarrow> ?C1) \<and> ?C2 \<and> (?A3 \<longrightarrow> ?C3) \<and> (?A4 \<longrightarrow> ?C4)")
proof -
  have 1: "?A1 \<longrightarrow> ?C1" by (auto simp: run_def)
  have 2: ?C2 by (simp add: run_def AppController_init_def)
  have 3: "?A3 \<longrightarrow> ?C3"
  proof
    assume s: ?A3
    from startup_selects [OF s] have ab: "lang_a_to_b c1 \<noteq> None" and ba: "lang_b_to_a c1 \<noteq> None"
      by simp_all
    from run_selected_no_runtime_error [OF ab ba] ab ba show ?C3 by simp
  qed
  have 4: "?A4 \<longrightarrow> ?C4"
  proof
    assume s: ?A4
    then have ab: "lang_a_to_b c2 \<noteq> None" and ba: "lang_b_to_a c2 \<noteq> None" by simp_all
    from run_selected_no_runtime_error [OF ab ba] show ?C4 by (simp add: not_selected_def)
  qed
  show ?thesis by (rule conjI [OF 1 conjI [OF 2 conjI [OF 3 4]]])
qed

theorem run_requires_selected_languages_witness:
  "lang_a_to_b demo_app = None
   \<and> run demo_app (replicate 6 (reading 10 0)) [] = (Raised not_selected, demo_app)
   \<and> select_languages_startup demo_app (press_only @ press_only) = (Returned () [], demo_selected)
   \<and> lang_a_to_b demo_selected = Some english \<and> lang_b_to_a demo_selected = Some english
   \<and> fst (run demo_selected [] []) \<noteq> Raised not_selected
   \<and> fst (run demo_selected [] []) = Returned () []"
proof -
  note t = run_requires_selected_languages [where c = demo_app
      and script = "replicate 6 (reading 10 0)" and after = "[]"
      and ?c0.0 = demo_app and ?script0.0 = "press_only @ press_only" and rest = "[]"
      and ?c1.0 = demo_selected and ?c2.0 = demo_selected]
  note u = run_requires_selected_languages [where script = "[]" and after = "[]"
      and ?c0.0 = demo_app and ?script0.0 = "press_only @ press_only" and rest = "[]"
      and ?c1.0 = demo_selected and ?c2.0 = demo_selected]
  have n: "lang_a_to_b demo_app = None" by (simp add: demo_app_def AppController_init_def)
  then have n': "lang_a_to_b demo_app = None \<or> lang_b_to_a demo_app = None" by simp
  have st: "select_languages_startup demo_app (press_only @ press_only) = (Returned () [], demo_selected)"
    unfolding demo_selected_def by (rule demo_startup)
  have ab: "lang_a_to_b demo_selected = Some english" "lang_b_to_a demo_selected = Some english"
    by (simp_all add: demo_selected_def)
  have w1: "run demo_app (replicate 6 (reading 10 0)) [] = (Raised not_selected, demo_app)"
    by (rule t [THEN conjunct1, THEN mp, OF n'])
  from u [THEN conjunct2, THEN conjunct2, THEN conjunct1, THEN mp, OF st]
  have w3: "fst (run demo_selected [] []) \<noteq> Raised not_selected"
    by (simp add: not_selected_def)
  have w4: "fst (run demo_selected [] []) = Returned () []" by (simp add: demo_run_selected)
  from n w1 st ab w3 w4 show ?thesis by (intro conjI)
qed

text \<open>
  Claim C6. An iteration whose two button blocks have returned polls the long-press
  detector with \<open>enabled\<close> equal to the negation of \<open>is_recording\<close> of the recorder at
  that moment, and re-selects only when that poll returns true; a poll with \<open>enabled\<close>
  false returns false; hence, while recording, the long-press block only updates the
  detector; and in the log of every call of \<open>run\<close> no re-selection is written between a
  start of \<open>arecord\<close> and the interrupt signal that stops it.
\<close>

theorem long_press_disabled_while_recording:
  "(button_a_phase c script = (Returned () rest1, c1)
      \<and> button_b_phase c1 rest1 = (Returned () rest2, c2)
      \<and> read_poll (pin (lang_longpress c2)) rest2 = Some (now, raw, rest3) \<longrightarrow>
    iteration c script =
      and_then
        (case LongPressDetector_poll (lang_longpress c2) now raw (\<not> is_recording (recorder c2)) of
           (long_pressed, d) \<Rightarrow>
             if long_pressed then reselect_languages (c2\<lparr>lang_longpress := d\<rparr>) rest3
             else (Returned () rest3, c2\<lparr>lang_longpress := d\<rparr>))
        (\<lambda>_ rest4 c4. LCDDisplay_tick_scroll (is_recording (recorder c4)) c4 rest4))
   \<and> fst (LongPressDetector_poll det t lv False) = False
   \<and> (is_recording (recorder k) \<longrightarrow>
        longpress_phase k s =
          (case read_poll (pin (lang_longpress k)) s of
             None \<Rightarrow> (Interrupted, k)
           | Some (now, raw, rest) \<Rightarrow>
               (Returned () rest,
                k\<lparr>lang_longpress :=
                     snd (LongPressDetector_poll (lang_longpress k) now raw False)\<rparr>)))
   \<and> (run a script_a after = (res, a') \<longrightarrow>
        (\<exists>es. events a' = events a @ es
              \<and> no_reselect_while_recording (is_recording (recorder a)) es))"
  (is "(?A1 \<longrightarrow> ?C1) \<and> ?C2 \<and> (?A3 \<longrightarrow> ?C3) \<and> (?A4 \<longrightarrow> ?C4)")
proof -
  have 1: "?A1 \<longrightarrow> ?C1"
  proof
    assume a: ?A1
    from a have x: "button_a_phase c script = (Returned () rest1, c1)" by simp
    from a have y: "button_b_phase c1 rest1 = (Returned () rest2, c2)" by simp
    from a have z: "read_poll (pin (lang_longpress c2)) rest2 = Some (now, raw, rest3)" by simp
    show ?C1 by (rule iteration_polls [OF x y z])
  qed
  have 2: ?C2 by (rule poll_disabled_false)
  have 3: "?A3 \<longrightarrow> ?C3" by (rule impI) (erule longpress_phase_recording)
  have 4: "?A4 \<longrightarrow> ?C4" by (rule impI) (erule run_no_reselect)
  show ?thesis by (rule conjI [OF 1 conjI [OF 2 conjI [OF 3 4]]])
qed

theorem long_press_disabled_while_recording_witness:
  "is_recording (recorder held_while_recording)
   \<and> fst (LongPressDetector_poll (lang_longpress held_while_recording) 10 0 True) = True
   \<and> fst (LongPressDetector_poll (lang_longpress held_while_recording) 10 0 False) = False
   \<and> iteration held_while_recording (replicate 6 (reading 10 0)) =
       (Returned () [], held_while_recording\<lparr>lang_longpress :=
           demo_longpress\<lparr>raw_last := 0, stable := 0\<rparr>\<rparr>)
   \<and> longpress_phase held_while_recording [reading 10 0, reading 10 0] =
       (Returned () [], held_while_recording\<lparr>lang_longpress :=
           demo_longpress\<lparr>raw_last := 0, stable := 0\<rparr>\<rparr>)
   \<and> events (snd (run held_while_recording (replicate 6 (reading 10 0)) demo_after)) =
       [LcdWrite (ascii ''Ready'') (ascii ''Hold button''),
        SendSignal SIGINT, Wait (Some 3),
        LcdWrite (ascii ''Transcribing...'') [],
        Transcribe (ascii ''audio_files/speech.wav''),
        LcdWrite (ascii ''No speech'') (ascii ''Try again''),
        GpioCleanup, LcdWrite (ascii ''Shutting down'') [], LcdClear]
   \<and> no_reselect_while_recording (is_recording (recorder held_while_recording))
        (events (snd (run held_while_recording (replicate 6 (reading 10 0)) demo_after)))"
proof -
  define c where "c = held_while_recording"
  define script where "script = replicate 6 (reading 10 0)"
  define c' where "c' = snd (run c script demo_after)"
  note t = long_press_disabled_while_recording [where c = c and script = script
      and ?c1.0 = c and ?rest1.0 = "replicate 4 (reading 10 0)"
      and ?c2.0 = c and ?rest2.0 = "replicate 2 (reading 10 0)"
      and now = 10 and raw = 0 and ?rest3.0 = "[]"
      and det = "lang_longpress c" and t = 10 and lv = 0
      and k = c and s = "[reading 10 0, reading 10 0]"
      and a = c and script_a = script and after = demo_after and res = "Returned () []"
      and a' = c']
  have rec: "is_recording (recorder c)"
    by (simp add: c_def held_while_recording_def is_recording_def demo_recorder_def)
  have pa: "button_a_phase c script = (Returned () (replicate 4 (reading 10 0)), c)"
    unfolding c_def script_def
    by (simp add: button_a_phase_def read_poll_def DebouncedButton_poll_def track_raw_def
        is_pressed_level_def Let_def app_eval numeral_eq_Suc)
  have pb: "button_b_phase c (replicate 4 (reading 10 0)) = (Returned () (replicate 2 (reading 10 0)), c)"
    unfolding c_def
    by (simp add: button_b_phase_def read_poll_def DebouncedButton_poll_def track_raw_def
        is_pressed_level_def Let_def app_eval numeral_eq_Suc)
  have rp: "read_poll (pin (lang_longpress c)) (replicate 2 (reading 10 0)) = Some (10, 0, [])"
    unfolding c_def by (simp add: read_poll_def app_eval numeral_eq_Suc)
  have ev: "snd (LongPressDetector_poll (lang_longpress c) 10 0 False)
      = demo_longpress\<lparr>raw_last := 0, stable := 0\<rparr>"
    unfolding c_def
    by (simp add: app_eval LongPressDetector_poll_def update_stable_def track_raw_def
      is_pressed_level_def Let_def)
  have fire: "fst (LongPressDetector_poll (lang_longpress c) 10 0 True) = True"
    unfolding c_def by (rule demo_held_would_fire)
  have r: "run c script demo_after = (Returned () [], c')"
    unfolding c'_def c_def script_def by (simp add: demo_run)
  have w2: "fst (LongPressDetector_poll (lang_longpress c) 10 0 False) = False"
    by (rule t [THEN conjunct2, THEN conjunct1])
  from t [THEN conjunct1, THEN mp, OF conjI [OF pa conjI [OF pb rp]]] rec w2 ev
  have w1: "iteration c script =
      (Returned () [], c\<lparr>lang_longpress := demo_longpress\<lparr>raw_last := 0, stable := 0\<rparr>\<rparr>)"
    by (simp add: and_then_def LCDDisplay_tick_scroll_def split: prod.splits)
  from t [THEN conjunct2, THEN conjunct2, THEN conjunct1, THEN mp, OF rec] ev
  have w3: "longpress_phase c [reading 10 0, reading 10 0] =
      (Returned () [], c\<lparr>lang_longpress := demo_longpress\<lparr>raw_last := 0, stable := 0\<rparr>\<rparr>)"
    unfolding c_def by (simp add: read_poll_def app_eval)
  have e0: "events c = []" by (simp add: c_def app_eval)
  from t [THEN conjunct2, THEN conjunct2, THEN conjunct2, THEN mp, OF r] e0
  have w4: "no_reselect_while_recording (is_recording (recorder c)) (events c')" by auto
  have w5: "events c' =
       [LcdWrite (ascii ''Ready'') (ascii ''Hold button''),
        SendSignal SIGINT, Wait (Some 3),
        LcdWrite (ascii ''Transcribing...'') [],
        Transcribe (ascii ''audio_files/speech.wav''),
        LcdWrite (ascii ''No speech'') (ascii ''Try again''),
        GpioCleanup, LcdWrite (ascii ''Shutting down'') [], LcdClear]"
    unfolding c'_def c_def script_def by (simp add: demo_run)
  from rec fire w2 w1 w3 w5 w4 show ?thesis
    unfolding c'_def c_def script_def by (intro conjI)
qed

end
